theory Spec2Isabelle
  imports Complex_Main "HOL-Library.Product_Lexorder"
begin

unbundle bit_operations_syntax

section \<open>Conventions of the embedding\<close>

text \<open>
  The exporter is Python. Python floats are modelled by \<^typ>\<open>real\<close> (an idealisation:
  no rounding, no NaN); Python's unbounded integers by \<^typ>\<open>int\<close>, and lengths and
  list positions by \<^typ>\<open>nat\<close>. An exception raised by the source is the \<open>Inl\<close>
  branch of a sum type. Values that come from the host application (the evaluated
  transform of an object at a scene frame, the built-in \<open>hash\<close> of a float, matrix
  inversion) are parameters of the model.
\<close>

datatype py_error = IndexError

section \<open>Animation curve classifier\<close>

datatype animation_type = AnimationTypeSampled | AnimationTypeLinear | AnimationTypeBezier

definition ExportEpsilon :: real where
  "ExportEpsilon = 1 / 1000000"

record keyframe =
  co :: "real \<times> real"
  handle_left :: "real \<times> real"
  handle_right :: "real \<times> real"
  interpolation :: string

record fcurve =
  data_path :: string
  array_index :: nat
  keyframe_points :: "keyframe list"

text \<open>
  The counting loop of \<open>classify_animation_curve\<close>. \<open>None\<close> is the early
  \<open>return AnimationTypeSampled\<close> from inside the loop; otherwise the two counters
  at the end of the loop are returned.
\<close>

fun classify_loop :: "keyframe list \<Rightarrow> nat \<Rightarrow> nat \<Rightarrow> (nat \<times> nat) option" where
  "classify_loop [] linear_count bezier_count = Some (linear_count, bezier_count)"
| "classify_loop (key # keys) linear_count bezier_count =
     (let interp = interpolation key in
      if interp = ''LINEAR'' then classify_loop keys (linear_count + 1) bezier_count
      else if interp = ''BEZIER'' then classify_loop keys linear_count (bezier_count + 1)
      else None)"

definition classify_animation_curve :: "fcurve \<Rightarrow> animation_type" where
  "classify_animation_curve fc =
     (case classify_loop (keyframe_points fc) 0 0 of
        None \<Rightarrow> AnimationTypeSampled
      | Some (linear_count, bezier_count) \<Rightarrow>
          if bezier_count = 0 then AnimationTypeLinear
          else if linear_count = 0 then AnimationTypeBezier
          else AnimationTypeSampled)"

text \<open>
  \<open>animation_keys_different\<close>: \<open>key1\<close> is read once, from the first keyframe, and the
  loop over \<open>range(1, key_count)\<close> compares every later value with it.
\<close>

fun keys_different_loop :: "real \<Rightarrow> keyframe list \<Rightarrow> bool" where
  "keys_different_loop key1 [] = False"
| "keys_different_loop key1 (k # ks) =
     (let key2 = snd (co k) in
      if \<bar>key2 - key1\<bar> > ExportEpsilon then True else keys_different_loop key1 ks)"

definition animation_keys_different :: "fcurve \<Rightarrow> bool" where
  "animation_keys_different fc =
     (case keyframe_points fc of
        [] \<Rightarrow> False
      | k0 # rest \<Rightarrow> keys_different_loop (snd (co k0)) rest)"

definition tangent_nonzero :: "keyframe \<Rightarrow> bool" where
  "tangent_nonzero k =
     (let key = snd (co k); left = snd (handle_left k); right = snd (handle_right k) in
      \<bar>key - left\<bar> > ExportEpsilon \<or> \<bar>right - key\<bar> > ExportEpsilon)"

fun tangents_nonzero_loop :: "keyframe list \<Rightarrow> bool" where
  "tangents_nonzero_loop [] = False"
| "tangents_nonzero_loop (k # ks) = (if tangent_nonzero k then True else tangents_nonzero_loop ks)"

definition animation_tangents_nonzero :: "fcurve \<Rightarrow> bool" where
  "animation_tangents_nonzero fc =
     (case keyframe_points fc of
        [] \<Rightarrow> False
      | k0 # rest \<Rightarrow> if tangent_nonzero k0 then True else tangents_nonzero_loop rest)"

definition animation_present :: "fcurve \<Rightarrow> animation_type \<Rightarrow> bool" where
  "animation_present fc kind =
     (if kind \<noteq> AnimationTypeBezier then animation_keys_different fc
      else (animation_keys_different fc \<or> animation_tangents_nonzero fc))"

text \<open>
  The reading of the presence test that compares each keyframe value with its
  predecessor, for comparison with \<open>animation_keys_different\<close>.
\<close>

fun successive_keys_differ :: "real list \<Rightarrow> bool" where
  "successive_keys_differ (a # b # rest) =
     (\<bar>b - a\<bar> > ExportEpsilon \<or> successive_keys_differ (b # rest))"
| "successive_keys_differ _ = False"

definition linear_key :: "real \<Rightarrow> keyframe" where
  "linear_key v = \<lparr>co = (0, v), handle_left = (0, v), handle_right = (0, v),
                   interpolation = ''LINEAR''\<rparr>"

definition curve_of :: "keyframe list \<Rightarrow> fcurve" where
  "curve_of ks = \<lparr>data_path = ''location'', array_index = 0, keyframe_points = ks\<rparr>"

section \<open>Sampled (full-matrix) animation\<close>

text \<open>
  A matrix of the host's \<open>mathutils\<close> is read by row and column. The scene holds the
  current frame and subframe; \<open>scene.frame_set(frame, subframe=0.0)\<close> sets both. The
  evaluated transform of an object or pose bone is a function of the scene, since the host
  re-evaluates it whenever the frame is set.
\<close>

type_synonym matrix = "nat \<Rightarrow> nat \<Rightarrow> real"

definition write_matrix :: "matrix \<Rightarrow> real list" where
  "write_matrix m =
     [m 0 0, m 0 1, m 0 2, m 0 3,
      m 1 0, m 1 1, m 1 2, m 1 3,
      m 2 0, m 2 1, m 2 2, m 2 3,
      m 3 0, m 3 1, m 3 2, m 3 3]"

definition matrices_different :: "matrix \<Rightarrow> matrix \<Rightarrow> bool" where
  "matrices_different m1 m2 =
     list_ex (\<lambda>i. list_ex (\<lambda>j. \<bar>m1 i j - m2 i j\<bar> > ExportEpsilon) [0..<4]) [0..<4]"

record scene =
  frame_current :: int
  frame_subframe :: real

definition frame_set :: "scene \<Rightarrow> int \<Rightarrow> real \<Rightarrow> scene" where
  "frame_set sc frame subframe = sc\<lparr>frame_current := frame, frame_subframe := subframe\<rparr>"

record exporter =
  beginFrame :: int
  endFrame :: int
  frameTime :: real

record track =
  track_target :: string
  track_times :: "real list"
  track_values :: "real list"

text \<open>The output dictionary \<open>o\<close>: the key \<open>animation\<close> is absent or holds the tracks.\<close>

record object_out =
  animation_tracks :: "track list option"

definition py_range :: "int \<Rightarrow> int \<Rightarrow> int list" where
  "py_range a b = [a..b - 1]"

text \<open>
  The detection loop: seek each frame of \<open>range(begin, end)\<close> and stop at the first
  frame whose matrix differs from \<open>m1\<close>.
\<close>

fun detect_animation :: "(scene \<Rightarrow> matrix) \<Rightarrow> matrix \<Rightarrow> int list \<Rightarrow> scene \<Rightarrow> bool \<times> scene" where
  "detect_animation mat m1 [] sc = (False, sc)"
| "detect_animation mat m1 (i # frames) sc =
     (let sc' = frame_set sc i 0; m2 = mat sc' in
      if matrices_different m1 m2 then (True, sc')
      else detect_animation mat m1 frames sc')"

text \<open>The sampling loop: seek each frame and append the flattened matrix.\<close>

fun sample_values :: "(scene \<Rightarrow> matrix) \<Rightarrow> int list \<Rightarrow> scene \<Rightarrow> real list \<Rightarrow> real list \<times> scene" where
  "sample_values mat [] sc vals = (vals, sc)"
| "sample_values mat (i # frames) sc vals =
     (let sc' = frame_set sc i 0 in sample_values mat frames sc' (vals @ write_matrix (mat sc')))"

definition sampled_track ::
  "real \<Rightarrow> int \<Rightarrow> int \<Rightarrow> (scene \<Rightarrow> matrix) \<Rightarrow> scene \<Rightarrow> track \<times> scene" where
  "sampled_track frame_time begin_frame end_frame mat sc =
     (let times0 = map (\<lambda>i. real_of_int (i - begin_frame) * frame_time)
                     (py_range begin_frame end_frame);
          times1 = times0 @ [real_of_int end_frame * frame_time];
          (values0, sc1) = sample_values mat (py_range begin_frame end_frame) sc [];
          sc2 = frame_set sc1 end_frame 0;
          values1 = values0 @ write_matrix (mat sc2)
      in (\<lparr>track_target = ''transform'', track_times = times1, track_values = values1\<rparr>, sc2))"

definition export_object_sampled_animation ::
  "exporter \<Rightarrow> (scene \<Rightarrow> matrix) \<Rightarrow> scene \<Rightarrow> object_out \<Rightarrow> scene \<times> object_out" where
  "export_object_sampled_animation self matrix_local sc out =
     (let currentFrame = frame_current sc;
          currentSubframe = frame_subframe sc;
          m1 = matrix_local sc;
          (animationFlag, sc1) =
            detect_animation matrix_local m1 (py_range (beginFrame self) (endFrame self)) sc;
          (out', sc2) =
            (if animationFlag then
               (let (tracko, sc') =
                      sampled_track (frameTime self) (beginFrame self) (endFrame self)
                        matrix_local sc1
                in (out\<lparr>animation_tracks := Some [tracko]\<rparr>, sc'))
             else (out, sc1))
      in (frame_set sc2 currentFrame currentSubframe, out'))"

record action =
  frame_range :: "real \<times> real"

text \<open>Python's \<open>int()\<close> of a float truncates towards zero.\<close>

definition py_int :: "real \<Rightarrow> int" where
  "py_int r = (if r \<ge> 0 then \<lfloor>r\<rfloor> else \<lceil>r\<rceil>)"

definition get_action_framerange :: "exporter \<Rightarrow> action \<Rightarrow> int \<times> int" where
  "get_action_framerange self act =
     (let begin_frame = py_int (fst (frame_range act));
          end_frame = py_int (snd (frame_range act));
          begin_frame = (if beginFrame self > begin_frame then beginFrame self else begin_frame);
          end_frame = (if endFrame self < end_frame then endFrame self else end_frame)
      in (begin_frame, end_frame))"

text \<open>
  A pose bone: its evaluated matrix and, when it has a parent, the parent's.
  \<open>inverted_mul p m\<close> stands for the host's \<open>p.inverted() * m\<close>.
\<close>

record pose_bone =
  bone_matrix :: "scene \<Rightarrow> matrix"
  bone_parent :: "(scene \<Rightarrow> matrix) option"

definition export_bone_sampled_animation ::
  "(matrix \<Rightarrow> matrix \<Rightarrow> matrix) \<Rightarrow> exporter \<Rightarrow> pose_bone \<Rightarrow> scene \<Rightarrow> object_out \<Rightarrow> action
     \<Rightarrow> scene \<times> object_out" where
  "export_bone_sampled_animation inverted_mul self poseBone sc out act =
     (let currentFrame = frame_current sc;
          currentSubframe = frame_subframe sc;
          (begin_frame, end_frame) = get_action_framerange self act;
          m1 = bone_matrix poseBone sc;
          (animationFlag, sc1) =
            detect_animation (bone_matrix poseBone) m1 (py_range begin_frame end_frame) sc;
          (out', sc2) =
            (if animationFlag then
               (let sampled =
                      (case bone_parent poseBone of
                         Some parent_matrix \<Rightarrow>
                           (\<lambda>s. inverted_mul (parent_matrix s) (bone_matrix poseBone s))
                       | None \<Rightarrow> bone_matrix poseBone);
                    (tracko, sc') =
                      sampled_track (frameTime self) begin_frame end_frame sampled sc1
                in (out\<lparr>animation_tracks := Some [tracko]\<rparr>, sc'))
             else (out, sc1))
      in (frame_set sc2 currentFrame currentSubframe, out'))"

text \<open>An object that moves along the x axis by one unit per frame.\<close>

definition sliding_matrix :: "scene \<Rightarrow> matrix" where
  "sliding_matrix sc =
     (\<lambda>i j. if i = 0 \<and> j = 3 then real_of_int (frame_current sc)
            else if i = j then 1 else 0)"

section \<open>Skin packer\<close>

text \<open>
  The per-vertex bone influence part of \<open>export_skin_quality\<close>. A mesh vertex carries
  its vertex-group memberships; \<open>group_remap\<close> maps a vertex group to a bone index, or
  to \<open>-1\<close> when no bone has the group's name. The skeleton part of the function (bone
  reference array and bind pose transforms) writes other keys of the output and is not
  modelled.
\<close>

record vertex_group_element =
  group :: nat
  weight :: real

record mesh_vertex =
  v_co :: "real \<times> real \<times> real"
  v_normal :: "real \<times> real \<times> real"
  groups :: "vertex_group_element list"

record skin_arrays =
  bone_count_array :: "nat list"
  bone_index_array :: "int list"
  bone_weight_array :: "real list"
  warn_bones :: bool

text \<open>The \<open>for ... else\<close> search of a bone with the group's name.\<close>

fun find_bone :: "string list \<Rightarrow> string \<Rightarrow> nat \<Rightarrow> int" where
  "find_bone [] group_name i = - 1"
| "find_bone (bone_name # bone_names) group_name i =
     (if bone_name = group_name then int i else find_bone bone_names group_name (i + 1))"

definition build_group_remap :: "string list \<Rightarrow> string list \<Rightarrow> int list" where
  "build_group_remap bone_names group_names =
     map (\<lambda>group_name. find_bone bone_names group_name 0) group_names"

text \<open>
  The inner loop over the groups of one vertex: it collects \<open>(weight, bone index)\<close>
  pairs in group order, the total weight and the count.
\<close>

fun gather_bones ::
  "int list \<Rightarrow> vertex_group_element list \<Rightarrow> (real \<times> int) list \<Rightarrow> real \<Rightarrow> nat
     \<Rightarrow> py_error + ((real \<times> int) list \<times> real \<times> nat)" where
  "gather_bones group_remap [] bone_values total_weight bone_count =
     Inr (bone_values, total_weight, bone_count)"
| "gather_bones group_remap (element # elements) bone_values total_weight bone_count =
     (if group element < length group_remap then
        (let bone_index = group_remap ! group element;
             bone_weight = weight element in
         if bone_index \<ge> 0 \<and> bone_weight \<noteq> 0 then
           gather_bones group_remap elements (bone_values @ [(bone_weight, bone_index)])
             (total_weight + bone_weight) (bone_count + 1)
         else gather_bones group_remap elements bone_values total_weight bone_count)
      else Inl IndexError)"

text \<open>The position that a Python index (negative: from the end) addresses in a list of length \<open>n\<close>.\<close>

definition py_index :: "nat \<Rightarrow> int \<Rightarrow> nat option" where
  "py_index n i =
     (let j = (if i < 0 then int n + i else i) in
      if 0 \<le> j \<and> j < int n then Some (nat j) else None)"

text \<open>The loop \<open>for i in range(0, bone_count): bone_weight_array[-i] *= normalizer\<close>.\<close>

fun normalize_loop :: "real \<Rightarrow> nat list \<Rightarrow> real list \<Rightarrow> py_error + real list" where
  "normalize_loop normalizer [] bwa = Inr bwa"
| "normalize_loop normalizer (i # is) bwa =
     (case py_index (length bwa) (- int i) of
        None \<Rightarrow> Inl IndexError
      | Some j \<Rightarrow> normalize_loop normalizer is (bwa[j := bwa ! j * normalizer]))"

definition pack_vertex ::
  "int list \<Rightarrow> mesh_vertex list \<Rightarrow> skin_arrays \<Rightarrow> nat \<Rightarrow> py_error + skin_arrays" where
  "pack_vertex group_remap mesh_vertex_array st vertex_index =
     (if vertex_index < length mesh_vertex_array then
        (case gather_bones group_remap (groups (mesh_vertex_array ! vertex_index)) [] 0 0 of
           Inl e \<Rightarrow> Inl e
         | Inr (bone_values0, total_weight, bone_count0) \<Rightarrow>
             (let (bone_count, bone_values, warn) =
                    (if bone_count0 > 4 then (4, take 4 bone_values0, True)
                     else (bone_count0, bone_values0, warn_bones st));
                  highest_first = rev (sort bone_values);
                  st1 = st\<lparr>bone_count_array := bone_count_array st @ [bone_count],
                           bone_index_array := bone_index_array st @ map snd highest_first,
                           bone_weight_array := bone_weight_array st @ map fst highest_first,
                           warn_bones := warn\<rparr>
              in if total_weight \<noteq> 0 then
                   (case normalize_loop (1 / total_weight) [0..<bone_count]
                           (bone_weight_array st1) of
                      Inl e \<Rightarrow> Inl e
                    | Inr bwa \<Rightarrow> Inr (st1\<lparr>bone_weight_array := bwa\<rparr>))
                 else Inr st1))
      else Inl IndexError)"

fun pack_vertices ::
  "int list \<Rightarrow> mesh_vertex list \<Rightarrow> nat list \<Rightarrow> skin_arrays \<Rightarrow> py_error + skin_arrays" where
  "pack_vertices group_remap mesh_vertex_array [] st = Inr st"
| "pack_vertices group_remap mesh_vertex_array (vertex_index # rest) st =
     (case pack_vertex group_remap mesh_vertex_array st vertex_index of
        Inl e \<Rightarrow> Inl e
      | Inr st' \<Rightarrow> pack_vertices group_remap mesh_vertex_array rest st')"

text \<open>
  \<open>vertex_indices\<close> is \<open>ev.vertex_index\<close> for each entry of \<open>export_vertex_array\<close>, in
  order.
\<close>

definition export_skin_quality ::
  "string list \<Rightarrow> string list \<Rightarrow> mesh_vertex list \<Rightarrow> nat list \<Rightarrow> py_error + skin_arrays" where
  "export_skin_quality bone_names group_names mesh_vertex_array vertex_indices =
     pack_vertices (build_group_remap bone_names group_names) mesh_vertex_array vertex_indices
       \<lparr>bone_count_array = [], bone_index_array = [], bone_weight_array = [],
        warn_bones = False\<rparr>"

text \<open>A mesh vertex at the origin with the given weights in the vertex groups 0, 1, 2, ...\<close>

definition weighted_vertex :: "real list \<Rightarrow> mesh_vertex" where
  "weighted_vertex ws =
     \<lparr>v_co = (0, 0, 0), v_normal = (0, 0, 1),
      groups = map (\<lambda>(g, w). \<lparr>group = g, weight = w\<rparr>) (zip [0..<length ws] ws)\<rparr>"

definition five_bones :: "string list" where
  "five_bones = [''b0'', ''b1'', ''b2'', ''b3'', ''b4'']"

section \<open>Geometry deduplicator\<close>

type_synonym vec2 = "real \<times> real"
type_synonym vec3 = "real \<times> real \<times> real"

record ExportVertex =
  hash :: int
  vertex_index :: nat
  face_index :: nat
  position :: vec3
  normal :: vec3
  color :: vec3
  texcoord0 :: vec2
  texcoord1 :: vec2

text \<open>\<open>ExportVertex.__eq__\<close>, with its chain of early returns.\<close>

definition ev_eq :: "ExportVertex \<Rightarrow> ExportVertex \<Rightarrow> bool" where
  "ev_eq self v =
     (if hash self \<noteq> hash v then False
      else if position self \<noteq> position v then False
      else if normal self \<noteq> normal v then False
      else if texcoord0 self \<noteq> texcoord0 v then False
      else if color self \<noteq> color v then False
      else if texcoord1 self \<noteq> texcoord1 v then False
      else True)"

text \<open>
  \<open>ExportVertex.Hash\<close>; \<open>py_hash\<close> is Python's built-in \<open>hash\<close> of a float.
\<close>

definition Hash :: "(real \<Rightarrow> int) \<Rightarrow> ExportVertex \<Rightarrow> ExportVertex" where
  "Hash py_hash self =
     (let (p0, p1, p2) = position self;
          (n0, n1, n2) = normal self;
          (c0, c1, c2) = color self;
          (s0, t0) = texcoord0 self;
          (s1, t1) = texcoord1 self;
          h = py_hash p0;
          h = h * 21737 + py_hash p1;
          h = h * 21737 + py_hash p2;
          h = h * 21737 + py_hash n0;
          h = h * 21737 + py_hash n1;
          h = h * 21737 + py_hash n2;
          h = h * 21737 + py_hash c0;
          h = h * 21737 + py_hash c1;
          h = h * 21737 + py_hash c2;
          h = h * 21737 + py_hash s0;
          h = h * 21737 + py_hash t0;
          h = h * 21737 + py_hash s1;
          h = h * 21737 + py_hash t1
      in self\<lparr>hash := h\<rparr>)"

text \<open>
  The \<open>while True\<close> loop of \<open>unify_vertices\<close>, which clears the lowest set bit until
  one bit is left.
\<close>

function round_down_pow2 :: "nat \<Rightarrow> nat" where
  "round_down_pow2 bucketCount =
     (let count = bucketCount AND (bucketCount - 1) in
      if count = 0 then bucketCount else round_down_pow2 count)"
  by pat_completeness auto
termination
proof (relation "measure id")
  show "wf (measure id)" by simp
next
  fix bucketCount count :: nat
  assume c: "count = bucketCount AND (bucketCount - 1)" and nz: "count \<noteq> 0"
  have "bucketCount \<noteq> 0" using c nz by (cases "bucketCount = 0") simp_all
  moreover have "int count \<le> int (bucketCount - 1)"
    unfolding c of_nat_and_eq by (rule AND_upper2) simp
  ultimately show "(count, bucketCount) \<in> measure id" by simp
qed

declare round_down_pow2.simps [simp del]

definition bucket_count :: "nat \<Rightarrow> nat" where
  "bucket_count n =
     (let bucketCount = drop_bit 3 n in
      if bucketCount > 1 then round_down_pow2 bucketCount else 1)"

record unify_state =
  hashTable :: "nat list list"
  unifiedVA :: "ExportVertex list"
  indexTable :: "nat list"

text \<open>
  The scan of one bucket: \<open>index\<close> starts at \<open>-1\<close> and becomes the first entry \<open>b\<close> of
  the bucket with \<open>export_vertex_array[b] == ev\<close>.
\<close>

fun find_in_bucket :: "ExportVertex list \<Rightarrow> ExportVertex \<Rightarrow> nat list \<Rightarrow> py_error + int" where
  "find_in_bucket export_vertex_array ev [] = Inr (- 1)"
| "find_in_bucket export_vertex_array ev (b # bs) =
     (if b < length export_vertex_array then
        (if ev_eq (export_vertex_array ! b) ev then Inr (int b)
         else find_in_bucket export_vertex_array ev bs)
      else Inl IndexError)"

definition bucket_of :: "nat \<Rightarrow> ExportVertex \<Rightarrow> nat" where
  "bucket_of bucketCount ev = nat (hash ev AND (int bucketCount - 1))"

text \<open>One iteration of the main loop of \<open>unify_vertices\<close>, for the position \<open>i\<close>.\<close>

definition unify_step ::
  "ExportVertex list \<Rightarrow> nat \<Rightarrow> unify_state \<Rightarrow> nat \<Rightarrow> py_error + unify_state" where
  "unify_step export_vertex_array bucketCount st i =
     (if i < length export_vertex_array then
        (let ev = export_vertex_array ! i;
             bucket = bucket_of bucketCount ev in
         if bucket < length (hashTable st) then
           (case find_in_bucket export_vertex_array ev (hashTable st ! bucket) of
              Inl e \<Rightarrow> Inl e
            | Inr index \<Rightarrow>
                if index < 0 then
                  Inr (st\<lparr>indexTable := indexTable st @ [length (unifiedVA st)],
                          unifiedVA := unifiedVA st @ [ev],
                          hashTable := (hashTable st)[bucket := hashTable st ! bucket @ [i]]\<rparr>)
                else if nat index < length (indexTable st) then
                  Inr (st\<lparr>indexTable := indexTable st @ [indexTable st ! nat index]\<rparr>)
                else Inl IndexError)
         else Inl IndexError)
      else Inl IndexError)"

fun unify_loop ::
  "ExportVertex list \<Rightarrow> nat \<Rightarrow> nat list \<Rightarrow> unify_state \<Rightarrow> py_error + unify_state" where
  "unify_loop export_vertex_array bucketCount [] st = Inr st"
| "unify_loop export_vertex_array bucketCount (i # is) st =
     (case unify_step export_vertex_array bucketCount st i of
        Inl e \<Rightarrow> Inl e
      | Inr st' \<Rightarrow> unify_loop export_vertex_array bucketCount is st')"

text \<open>
  The whole of \<open>unify_vertices\<close>, with the hash table kept in the result: the source
  returns \<open>unifiedVA\<close> and leaves the index table in the list it was passed.
\<close>

definition unify_run :: "ExportVertex list \<Rightarrow> nat list \<Rightarrow> py_error + unify_state" where
  "unify_run export_vertex_array index_table =
     (let bucketCount = bucket_count (length export_vertex_array) in
      unify_loop export_vertex_array bucketCount [0..<length export_vertex_array]
        \<lparr>hashTable = replicate bucketCount [], unifiedVA = [], indexTable = index_table\<rparr>)"

definition unify_vertices ::
  "ExportVertex list \<Rightarrow> nat list \<Rightarrow> py_error + (ExportVertex list \<times> nat list)" where
  "unify_vertices export_vertex_array index_table =
     (case unify_run export_vertex_array index_table of
        Inl e \<Rightarrow> Inl e
      | Inr st \<Rightarrow> Inr (unifiedVA st, indexTable st))"

section \<open>De-indexing a mesh\<close>

text \<open>
  The part of the host's mesh that \<open>deindex_mesh\<close> reads: the vertices, the tessellated
  faces (three or four vertex numbers each), and per layer one record of corner colours
  or corner UVs for each face.
\<close>

record tessface =
  face_vertices :: "nat list"
  use_smooth :: bool
  face_normal :: vec3
  material_index :: nat

record color_face =
  color1 :: vec3
  color2 :: vec3
  color3 :: vec3
  color4 :: vec3

record uv_face =
  uv1 :: vec2
  uv2 :: vec2
  uv3 :: vec2
  uv4 :: vec2

record mesh =
  vertices :: "mesh_vertex list"
  tessfaces :: "tessface list"
  tessface_vertex_colors :: "color_face list list"
  tessface_uv_textures :: "uv_face list list"

text \<open>
  A new \<open>ExportVertex\<close> for the mesh vertex \<open>k\<close> of a face. The constructor sets the
  colour to white and both texture coordinates to zero; \<open>hash\<close> is assigned by
  \<open>Hash\<close> at the end of \<open>deindex_mesh\<close> and is \<open>0\<close> until then.
\<close>

definition make_vertex ::
  "mesh_vertex list \<Rightarrow> tessface \<Rightarrow> nat \<Rightarrow> nat \<Rightarrow> py_error + ExportVertex" where
  "make_vertex vertexArray face fi k =
     (if k < length vertexArray then
        (let v = vertexArray ! k in
         Inr \<lparr>hash = 0, vertex_index = k, face_index = fi, position = v_co v,
              normal = (if use_smooth face then v_normal v else face_normal face),
              color = (1, 1, 1), texcoord0 = (0, 0), texcoord1 = (0, 0)\<rparr>)
      else Inl IndexError)"

text \<open>The three export vertices of the triangle with the corners \<open>a\<close>, \<open>b\<close>, \<open>c\<close> of a face.\<close>

definition triangle ::
  "mesh_vertex list \<Rightarrow> tessface \<Rightarrow> nat \<Rightarrow> nat \<Rightarrow> nat \<Rightarrow> nat \<Rightarrow> py_error + ExportVertex list" where
  "triangle vertexArray face fi a b c =
     (let fv = face_vertices face in
      if a < length fv \<and> b < length fv \<and> c < length fv then
        (case make_vertex vertexArray face fi (fv ! a) of
           Inl e \<Rightarrow> Inl e
         | Inr x \<Rightarrow>
             (case make_vertex vertexArray face fi (fv ! b) of
                Inl e \<Rightarrow> Inl e
              | Inr y \<Rightarrow>
                  (case make_vertex vertexArray face fi (fv ! c) of
                     Inl e \<Rightarrow> Inl e
                   | Inr z \<Rightarrow> Inr [x, y, z])))
      else Inl IndexError)"

fun deindex_faces ::
  "mesh_vertex list \<Rightarrow> tessface list \<Rightarrow> nat \<Rightarrow> ExportVertex list \<Rightarrow> nat list
     \<Rightarrow> py_error + (ExportVertex list \<times> nat list)" where
  "deindex_faces vertexArray [] fi eva material_table = Inr (eva, material_table)"
| "deindex_faces vertexArray (face # faces) fi eva material_table =
     (case triangle vertexArray face fi 0 1 2 of
        Inl e \<Rightarrow> Inl e
      | Inr t1 \<Rightarrow>
          if length (face_vertices face) = 4 then
            (case triangle vertexArray face fi 0 2 3 of
               Inl e \<Rightarrow> Inl e
             | Inr t2 \<Rightarrow>
                 deindex_faces vertexArray faces (fi + 1) (eva @ t1 @ t2)
                   (material_table @ [material_index face, material_index face]))
          else
            deindex_faces vertexArray faces (fi + 1) (eva @ t1)
              (material_table @ [material_index face]))"

text \<open>
  The assignments \<open>export_vertex_array[vertex_index].attr = x; vertex_index += 1\<close>, one
  for each value of the list.
\<close>

fun assign_seq ::
  "(ExportVertex \<Rightarrow> 'a \<Rightarrow> ExportVertex) \<Rightarrow> ExportVertex list \<Rightarrow> nat \<Rightarrow> 'a list
     \<Rightarrow> py_error + ExportVertex list" where
  "assign_seq upd eva vi [] = Inr eva"
| "assign_seq upd eva vi (x # xs) =
     (if vi < length eva then assign_seq upd (eva[vi := upd (eva ! vi) x]) (vi + 1) xs
      else Inl IndexError)"

text \<open>
  A pass over the faces that assigns one attribute: the values of a face are written to
  three consecutive export vertices, and to three more when the face is a quad.
\<close>

fun assign_pass ::
  "(ExportVertex \<Rightarrow> 'a \<Rightarrow> ExportVertex) \<Rightarrow> (tessface \<Rightarrow> 'd \<Rightarrow> 'a list) \<Rightarrow> tessface list
     \<Rightarrow> 'd list \<Rightarrow> nat \<Rightarrow> nat \<Rightarrow> ExportVertex list \<Rightarrow> py_error + ExportVertex list" where
  "assign_pass upd vals [] layer vi fi eva = Inr eva"
| "assign_pass upd vals (face # faces) layer vi fi eva =
     (if fi < length layer then
        (case assign_seq upd eva vi (vals face (layer ! fi)) of
           Inl e \<Rightarrow> Inl e
         | Inr eva' \<Rightarrow>
             assign_pass upd vals faces layer (vi + length (vals face (layer ! fi))) (fi + 1)
               eva')
      else Inl IndexError)"

definition face_colors :: "tessface \<Rightarrow> color_face \<Rightarrow> vec3 list" where
  "face_colors face cf =
     [color1 cf, color2 cf, color3 cf] @
     (if length (face_vertices face) = 4 then [color1 cf, color3 cf, color4 cf] else [])"

definition face_texcoords :: "tessface \<Rightarrow> uv_face \<Rightarrow> vec2 list" where
  "face_texcoords face tf =
     [(fst (uv1 tf), 1 - snd (uv1 tf)),
      (fst (uv2 tf), 1 - snd (uv2 tf)),
      (fst (uv3 tf), 1 - snd (uv3 tf))] @
     (if length (face_vertices face) = 4 then
        [(fst (uv1 tf), 1 - snd (uv1 tf)),
         (fst (uv3 tf), 1 - snd (uv3 tf)),
         (fst (uv4 tf), 1 - snd (uv4 tf))]
      else [])"

definition deindex_mesh ::
  "(real \<Rightarrow> int) \<Rightarrow> mesh \<Rightarrow> nat list \<Rightarrow> py_error + (ExportVertex list \<times> nat list)" where
  "deindex_mesh py_hash m material_table =
     (case deindex_faces (vertices m) (tessfaces m) 0 [] material_table of
        Inl e \<Rightarrow> Inl e
      | Inr (eva0, material_table') \<Rightarrow>
          (case (if length (tessface_vertex_colors m) > 0 then
                   assign_pass (\<lambda>ev c. ev\<lparr>color := c\<rparr>) face_colors (tessfaces m)
                     (tessface_vertex_colors m ! 0) 0 0 eva0
                 else Inr eva0) of
             Inl e \<Rightarrow> Inl e
           | Inr eva1 \<Rightarrow>
               (case (if length (tessface_uv_textures m) > 0 then
                        (case assign_pass (\<lambda>ev t. ev\<lparr>texcoord0 := t\<rparr>) face_texcoords
                                (tessfaces m) (tessface_uv_textures m ! 0) 0 0 eva1 of
                           Inl e \<Rightarrow> Inl e
                         | Inr eva2 \<Rightarrow>
                             if length (tessface_uv_textures m) > 1 then
                               assign_pass (\<lambda>ev t. ev\<lparr>texcoord1 := t\<rparr>) face_texcoords
                                 (tessfaces m) (tessface_uv_textures m ! 1) 0 0 eva2
                             else Inr eva2)
                      else Inr eva1) of
                  Inl e \<Rightarrow> Inl e
                | Inr eva3 \<Rightarrow> Inr (map (Hash py_hash) eva3, material_table'))))"

text \<open>
  The source UVs of the face corners in the order in which \<open>deindex_mesh\<close> emits export
  vertices (corners 1, 2, 3 and, for a quad, 1, 3, 4), and the vertical flip of a UV pair.
\<close>

definition corner_uvs :: "tessface \<Rightarrow> uv_face \<Rightarrow> vec2 list" where
  "corner_uvs face tf =
     (if length (face_vertices face) = 4 then [uv1 tf, uv2 tf, uv3 tf, uv1 tf, uv3 tf, uv4 tf]
      else [uv1 tf, uv2 tf, uv3 tf])"

definition corner_count :: "tessface \<Rightarrow> nat" where
  "corner_count face = (if length (face_vertices face) = 4 then 6 else 3)"

definition flip_v :: "vec2 \<Rightarrow> vec2" where
  "flip_v uv = (fst uv, 1 - snd uv)"

section \<open>The fast mesh export: filling the vertex arrays\<close>

text \<open>
  A \<open>Vertex\<close> of the fast path, and the arrays that the loop \<open>Make arrays\<close> of
  \<open>export_mesh_fast\<close> fills. \<open>vert_list\<close>, the keys of the dictionary built from the
  mesh loops, is a parameter. An array that the source does not allocate is empty.
\<close>

record Vertex =
  vtx_vertex_index :: nat
  vtx_co :: vec3
  vtx_normal :: vec3
  uvs :: "vec2 list"
  col :: vec3
  loop_indices :: "nat list"
  vtx_index :: nat

record fast_arrays =
  vdata :: "real list"
  ndata :: "real list"
  t0data :: "real list"
  t1data :: "real list"
  cdata :: "real list"

text \<open>The list assignments \<open>xs[base] = v0; xs[base + 1] = v1; ...\<close>.\<close>

fun store_seq :: "real list \<Rightarrow> nat \<Rightarrow> real list \<Rightarrow> py_error + real list" where
  "store_seq xs base [] = Inr xs"
| "store_seq xs base (v # vs) =
     (if base < length xs then store_seq (xs[base := v]) (base + 1) vs else Inl IndexError)"

definition fill_vertex ::
  "bool \<Rightarrow> bool \<Rightarrow> bool \<Rightarrow> nat \<Rightarrow> Vertex \<Rightarrow> fast_arrays \<Rightarrow> py_error + fast_arrays" where
  "fill_vertex has_tex has_tex1 has_col i vtx arrs =
     (let (x, y, z) = vtx_co vtx; (nx, ny, nz) = vtx_normal vtx in
      case store_seq (vdata arrs) (i * 3) [x, y, z] of
        Inl e \<Rightarrow> Inl e
      | Inr vd \<Rightarrow>
      (case store_seq (ndata arrs) (i * 3) [nx, ny, nz] of
        Inl e \<Rightarrow> Inl e
      | Inr nd \<Rightarrow>
      (case (if has_tex then
               (if 0 < length (uvs vtx) then
                  store_seq (t0data arrs) (i * 2) [fst (uvs vtx ! 0), 1 - snd (uvs vtx ! 0)]
                else Inl IndexError)
             else Inr (t0data arrs)) of
        Inl e \<Rightarrow> Inl e
      | Inr t0 \<Rightarrow>
      (case (if has_tex \<and> has_tex1 then
               (if 1 < length (uvs vtx) then
                  store_seq (t1data arrs) (i * 2) [fst (uvs vtx ! 1), 1 - snd (uvs vtx ! 1)]
                else Inl IndexError)
             else Inr (t1data arrs)) of
        Inl e \<Rightarrow> Inl e
      | Inr t1 \<Rightarrow>
      (case (if has_col then
               (let (r, g, b) = col vtx in store_seq (cdata arrs) (i * 3) [r, g, b])
             else Inr (cdata arrs)) of
        Inl e \<Rightarrow> Inl e
      | Inr cd \<Rightarrow>
          Inr \<lparr>vdata = vd, ndata = nd, t0data = t0, t1data = t1, cdata = cd\<rparr>)))))"

fun fill_arrays ::
  "bool \<Rightarrow> bool \<Rightarrow> bool \<Rightarrow> nat \<Rightarrow> Vertex list \<Rightarrow> fast_arrays \<Rightarrow> py_error + fast_arrays" where
  "fill_arrays has_tex has_tex1 has_col i [] arrs = Inr arrs"
| "fill_arrays has_tex has_tex1 has_col i (vtx # rest) arrs =
     (case fill_vertex has_tex has_tex1 has_col i vtx arrs of
        Inl e \<Rightarrow> Inl e
      | Inr arrs' \<Rightarrow> fill_arrays has_tex has_tex1 has_col (i + 1) rest arrs')"

text \<open>
  \<open>export_mesh_fast\<close> up to the end of the loop \<open>Make arrays\<close>. \<open>export_uvs\<close> and
  \<open>export_vcols\<close> are the results of \<open>get_export_uvs\<close> and \<open>get_export_vcols\<close>.
\<close>

definition export_mesh_fast ::
  "bool \<Rightarrow> bool \<Rightarrow> nat \<Rightarrow> nat \<Rightarrow> Vertex list \<Rightarrow> py_error + fast_arrays" where
  "export_mesh_fast export_uvs export_vcols num_uv_layers num_colors vert_list =
     (let num_verts = length vert_list;
          has_tex = (export_uvs \<and> num_uv_layers > 0);
          has_tex1 = (has_tex \<and> num_uv_layers > 1);
          has_col = (export_vcols \<and> num_colors > 0)
      in fill_arrays has_tex has_tex1 has_col 0 vert_list
           \<lparr>vdata = replicate (num_verts * 3) 0,
            ndata = replicate (num_verts * 3) 0,
            t0data = (if has_tex then replicate (num_verts * 2) 0 else []),
            t1data = (if has_tex \<and> has_tex1 then replicate (num_verts * 2) 0 else []),
            cdata = (if has_col then replicate (num_verts * 3) 0 else [])\<rparr>)"

text \<open>The two array entries that a UV pair contributes, with the vertical flip.\<close>

definition flipped_pair :: "vec2 \<Rightarrow> real list" where
  "flipped_pair uv = [fst (flip_v uv), snd (flip_v uv)]"

text \<open>
  Position \<open>i\<close> is a first occurrence when no earlier vertex compares equal to the one at
  \<open>i\<close>. \<open>unify_inv\<close> is the invariant of the main loop before it handles position \<open>i\<close>.
\<close>

definition first_occ :: "ExportVertex list \<Rightarrow> nat \<Rightarrow> bool" where
  "first_occ eva i = (\<forall>j<i. \<not> ev_eq (eva ! j) (eva ! i))"

definition unify_inv :: "ExportVertex list \<Rightarrow> nat \<Rightarrow> nat \<Rightarrow> unify_state \<Rightarrow> bool" where
  "unify_inv eva bc i st \<longleftrightarrow>
     length (hashTable st) = bc \<and>
     (\<forall>b<bc. set (hashTable st ! b) = {j. j < i \<and> first_occ eva j \<and> bucket_of bc (eva ! j) = b}) \<and>
     unifiedVA st = map (\<lambda>j. eva ! j) (filter (first_occ eva) [0..<i]) \<and>
     length (indexTable st) = i \<and>
     (\<forall>j<i. indexTable st ! j < length (unifiedVA st) \<and>
            ev_eq (unifiedVA st ! (indexTable st ! j)) (eva ! j))"

section \<open>Sample inputs\<close>

text \<open>
  A unit square as one quad, with two UV layers, and the hash of a float with an integral
  value, which is that integer.
\<close>

definition floor_hash :: "real \<Rightarrow> int" where
  "floor_hash r = \<lfloor>r\<rfloor>"

definition square_vertex :: "real \<Rightarrow> real \<Rightarrow> mesh_vertex" where
  "square_vertex x y = \<lparr>v_co = (x, y, 0), v_normal = (0, 0, 1), groups = []\<rparr>"

definition quad_mesh :: mesh where
  "quad_mesh =
     \<lparr>vertices = [square_vertex 0 0, square_vertex 1 0, square_vertex 1 1, square_vertex 0 1],
      tessfaces = [\<lparr>face_vertices = [0, 1, 2, 3], use_smooth = False, face_normal = (0, 0, 1),
                    material_index = 0\<rparr>],
      tessface_vertex_colors = [],
      tessface_uv_textures = [[\<lparr>uv1 = (0, 0), uv2 = (1, 0), uv3 = (1, 1), uv4 = (0, 1)\<rparr>],
                              [\<lparr>uv1 = (0, 0), uv2 = (2, 0), uv3 = (2, 1), uv4 = (0, 1)\<rparr>]]\<rparr>"

definition corner_vertex :: "int \<Rightarrow> nat \<Rightarrow> vec2 \<Rightarrow> vec2 \<Rightarrow> vec2 \<Rightarrow> ExportVertex" where
  "corner_vertex h k p t0 t1 =
     \<lparr>hash = h, vertex_index = k, face_index = 0, position = (fst p, snd p, 0),
      normal = (0, 0, 1), color = (1, 1, 1), texcoord0 = t0, texcoord1 = t1\<rparr>"

definition fast_vertex :: "real \<Rightarrow> real \<Rightarrow> Vertex" where
  "fast_vertex u v =
     \<lparr>vtx_vertex_index = 0, vtx_co = (u, v, 0), vtx_normal = (0, 0, 1), uvs = [(u, v), (2 * u, v)],
      col = (0, 0, 0), loop_indices = [0], vtx_index = 0\<rparr>"

text \<open>The export vertices that \<open>deindex_mesh\<close> produces for \<open>quad_mesh\<close>.\<close>

definition quad_corner0 :: ExportVertex where
  "quad_corner0 = corner_vertex 2293069498626222598441686036230 0 (0, 0) (0, 1) (0, 1)"

definition quad_corner1 :: ExportVertex where
  "quad_corner1 =
     corner_vertex 11127440083805760410677661859417487348519961838882738 1 (1, 0) (1, 1) (2, 1)"

definition quad_corner2 :: ExportVertex where
  "quad_corner2 =
     corner_vertex 11127951996217031780250771091086527182035437800552281 2 (1, 1) (1, 0) (2, 0)"

definition quad_corner3 :: ExportVertex where
  "quad_corner3 =
     corner_vertex 511912411271369575402301167666056113917647705773 3 (0, 1) (0, 0) (0, 0)"

definition quad_eva :: "ExportVertex list" where
  "quad_eva =
     [quad_corner0, quad_corner1, quad_corner2, quad_corner0, quad_corner2, quad_corner3]"

section \<open>Properties of the animation curve classifier\<close>

lemma classify_loop_None:
  "classify_loop ks l b = None \<longleftrightarrow>
     (\<exists>k \<in> set ks. interpolation k \<noteq> ''LINEAR'' \<and> interpolation k \<noteq> ''BEZIER'')"
  by (induction ks arbitrary: l b) (auto simp: Let_def)

lemma classify_loop_Some:
  "classify_loop ks l b = Some (l', b') \<Longrightarrow>
     l' = l + length (filter (\<lambda>k. interpolation k = ''LINEAR'') ks) \<and>
     b' = b + length (filter (\<lambda>k. interpolation k = ''BEZIER'') ks)"
proof (induction ks arbitrary: l b)
  case Nil
  then show ?case by simp
next
  case (Cons k ks)
  show ?case
  proof (cases "interpolation k = ''LINEAR''")
    case True
    with Cons.prems have "classify_loop ks (l + 1) b = Some (l', b')" by simp
    from Cons.IH [OF this] True show ?thesis by simp
  next
    case False
    with Cons.prems have bz: "interpolation k = ''BEZIER''"
      by (simp split: if_splits)
    with Cons.prems False have "classify_loop ks l (b + 1) = Some (l', b')" by simp
    from Cons.IH [OF this] bz show ?thesis by simp
  qed
qed

text \<open>
  C3. For every sequence of keyframes on a channel, \<open>classify_animation_curve\<close> is
  Sampled if some keyframe's interpolation mode is neither linear nor Bezier; otherwise
  Linear if there is no Bezier key; otherwise Bezier if there is no linear key; and
  Sampled for a mix of linear and Bezier keys.
\<close>

theorem classify_animation_curve_cases:
  "classify_animation_curve fc =
     (if list_ex (\<lambda>k. interpolation k \<noteq> ''LINEAR'' \<and> interpolation k \<noteq> ''BEZIER'')
           (keyframe_points fc)
      then AnimationTypeSampled
      else if length (filter (\<lambda>k. interpolation k = ''BEZIER'') (keyframe_points fc)) = 0
      then AnimationTypeLinear
      else if length (filter (\<lambda>k. interpolation k = ''LINEAR'') (keyframe_points fc)) = 0
      then AnimationTypeBezier
      else AnimationTypeSampled)"
proof (cases "classify_loop (keyframe_points fc) 0 0")
  case None
  then show ?thesis
    using classify_loop_None [of "keyframe_points fc" 0 0]
    by (simp add: classify_animation_curve_def list_ex_iff)
next
  case (Some p)
  obtain l b where p: "p = (l, b)" by (cases p)
  have no: "\<not> list_ex (\<lambda>k. interpolation k \<noteq> ''LINEAR'' \<and> interpolation k \<noteq> ''BEZIER'')
                  (keyframe_points fc)"
    using Some classify_loop_None [of "keyframe_points fc" 0 0]
    by (simp add: list_ex_iff)
  from Some p classify_loop_Some [of "keyframe_points fc" 0 0 l b]
  have "l = length (filter (\<lambda>k. interpolation k = ''LINEAR'') (keyframe_points fc))"
    and "b = length (filter (\<lambda>k. interpolation k = ''BEZIER'') (keyframe_points fc))"
    by simp_all
  with Some p no show ?thesis
    by (simp add: classify_animation_curve_def)
qed

theorem classify_animation_curve_cases_witness:
  "classify_animation_curve
     (curve_of [linear_key 0, (linear_key 1)\<lparr>interpolation := ''BEZIER''\<rparr>])
   = AnimationTypeSampled"
  using classify_animation_curve_cases
    [of "curve_of [linear_key 0, (linear_key 1)\<lparr>interpolation := ''BEZIER''\<rparr>]"]
  by (simp add: curve_of_def linear_key_def)

section \<open>Properties of the presence test\<close>

lemma keys_different_loop_iff:
  "keys_different_loop key1 ks \<longleftrightarrow> (\<exists>k \<in> set ks. \<bar>snd (co k) - key1\<bar> > ExportEpsilon)"
  by (induction ks) (auto simp: Let_def)

lemma animation_keys_different_nth:
  "animation_keys_different fc \<longleftrightarrow>
     (\<exists>i. 0 < i \<and> i < length (keyframe_points fc) \<and>
          \<bar>snd (co (keyframe_points fc ! i)) - snd (co (keyframe_points fc ! 0))\<bar>
            > ExportEpsilon)"
proof (cases "keyframe_points fc")
  case Nil
  then show ?thesis by (simp add: animation_keys_different_def)
next
  case (Cons k0 rest)
  have "(\<exists>k \<in> set rest. \<bar>snd (co k) - snd (co k0)\<bar> > ExportEpsilon) \<longleftrightarrow>
        (\<exists>i. 0 < i \<and> i < length (k0 # rest) \<and>
             \<bar>snd (co ((k0 # rest) ! i)) - snd (co k0)\<bar> > ExportEpsilon)"
    (is "?L \<longleftrightarrow> ?R")
  proof
    assume ?L
    then obtain j where "j < length rest" "\<bar>snd (co (rest ! j)) - snd (co k0)\<bar> > ExportEpsilon"
      by (auto simp: in_set_conv_nth)
    then have "0 < Suc j \<and> Suc j < length (k0 # rest) \<and>
               \<bar>snd (co ((k0 # rest) ! Suc j)) - snd (co k0)\<bar> > ExportEpsilon"
      by simp
    then show ?R by blast
  next
    assume ?R
    then obtain i where i: "0 < i" "i < length (k0 # rest)"
      "\<bar>snd (co ((k0 # rest) ! i)) - snd (co k0)\<bar> > ExportEpsilon"
      by blast
    then obtain j where "i = Suc j" by (cases i) auto
    with i have "rest ! j \<in> set rest" "\<bar>snd (co (rest ! j)) - snd (co k0)\<bar> > ExportEpsilon"
      by simp_all
    then show ?L by blast
  qed
  with Cons show ?thesis
    by (simp add: animation_keys_different_def keys_different_loop_iff)
qed

text \<open>
  C6, as stated, fails: a curve classified Linear whose values are \<open>0, -2^-20, 2^-20\<close>
  has two successive values further apart than \<open>ExportEpsilon\<close>, yet the presence test
  reports no animation, because every value is within \<open>ExportEpsilon\<close> of the first one.
  Conversely the values \<open>0, 2^-20, 2^-19\<close> are reported as animated although no two
  successive values differ by more than \<open>ExportEpsilon\<close>.
\<close>

theorem animation_present_successive_counterexample:
  "classify_animation_curve
     (curve_of [linear_key 0, linear_key (- (1 / 1048576)), linear_key (1 / 1048576)])
     = AnimationTypeLinear \<and>
   \<not> animation_present
     (curve_of [linear_key 0, linear_key (- (1 / 1048576)), linear_key (1 / 1048576)])
     AnimationTypeLinear \<and>
   successive_keys_differ [0, - (1 / 1048576), 1 / 1048576] \<and>
   animation_present
     (curve_of [linear_key 0, linear_key (1 / 1048576), linear_key (1 / 524288)])
     AnimationTypeLinear \<and>
   \<not> successive_keys_differ [0, 1 / 1048576, 1 / 524288]"
  by (simp add: classify_animation_curve_def animation_present_def
      animation_keys_different_def curve_of_def linear_key_def ExportEpsilon_def)

text \<open>
  C6, amended. The presence test reports a curve as animated by value change if and only
  if some keyframe after the first has a value that differs from the value of the first
  keyframe by more than \<open>ExportEpsilon\<close>; for a curve kind other than Bezier this is
  the whole of \<open>animation_present\<close>.
\<close>

theorem animation_present_first_key:
  "(animation_keys_different fc \<longleftrightarrow>
     (\<exists>i. 0 < i \<and> i < length (keyframe_points fc) \<and>
          \<bar>snd (co (keyframe_points fc ! i)) - snd (co (keyframe_points fc ! 0))\<bar>
            > ExportEpsilon)) \<and>
   (kind \<noteq> AnimationTypeBezier \<longrightarrow>
      animation_present fc kind = animation_keys_different fc)"
  using animation_keys_different_nth [of fc] by (simp add: animation_present_def)

theorem animation_present_first_key_witness:
  "animation_present (curve_of [linear_key 0, linear_key (1 / 2), linear_key 1])
     AnimationTypeLinear
   = animation_keys_different (curve_of [linear_key 0, linear_key (1 / 2), linear_key 1]) \<and>
   animation_keys_different (curve_of [linear_key 0, linear_key (1 / 2), linear_key 1])"
  using animation_present_first_key
    [of "curve_of [linear_key 0, linear_key (1 / 2), linear_key 1]" AnimationTypeLinear]
  by (simp add: animation_keys_different_def curve_of_def linear_key_def ExportEpsilon_def)

text \<open>
  C9. A channel with no keyframes is classified Linear, and a channel with fewer than two
  keyframes is never reported as animated by value change: \<open>animation_keys_different\<close>
  is false for it, and so is \<open>animation_present\<close> at the kind Linear.
\<close>

theorem empty_or_single_key_not_animated:
  "(keyframe_points fc = [] \<longrightarrow> classify_animation_curve fc = AnimationTypeLinear) \<and>
   (length (keyframe_points fc) < 2 \<longrightarrow>
      \<not> animation_keys_different fc \<and> \<not> animation_present fc AnimationTypeLinear)"
proof (intro conjI impI)
  assume "keyframe_points fc = []"
  then show "classify_animation_curve fc = AnimationTypeLinear"
    by (simp add: classify_animation_curve_def)
next
  assume short: "length (keyframe_points fc) < 2"
  show "\<not> animation_keys_different fc"
  proof (cases "keyframe_points fc")
    case Nil
    then show ?thesis by (simp add: animation_keys_different_def)
  next
    case (Cons k0 rest)
    with short have "rest = []" by simp
    with Cons show ?thesis by (simp add: animation_keys_different_def)
  qed
  then show "\<not> animation_present fc AnimationTypeLinear"
    by (simp add: animation_present_def)
qed

theorem empty_or_single_key_not_animated_witness:
  "classify_animation_curve (curve_of []) = AnimationTypeLinear \<and>
   \<not> animation_keys_different (curve_of []) \<and>
   \<not> animation_present (curve_of []) AnimationTypeLinear \<and>
   \<not> animation_keys_different (curve_of [linear_key 5]) \<and>
   \<not> animation_present (curve_of [linear_key 5]) AnimationTypeLinear"
  using empty_or_single_key_not_animated [of "curve_of []"]
    empty_or_single_key_not_animated [of "curve_of [linear_key 5]"]
  by (simp add: curve_of_def)

section \<open>Properties of the sampled animation exporters\<close>

lemma frame_set_restores:
  "frame_set sc' (frame_current sc) (frame_subframe sc) =
     sc'\<lparr>frame_current := frame_current sc, frame_subframe := frame_subframe sc\<rparr>"
  by (simp add: frame_set_def)

text \<open>
  The shape of a sampled track: the times written by the loop are relative to the first
  frame, the last one is not; there is one flattened matrix for each frame of the loop and
  one for the end frame.
\<close>

lemma sample_values_length:
  "sample_values mat frames sc vals = (vals', sc') \<Longrightarrow>
     length vals' = length vals + 16 * length frames"
  by (induction frames arbitrary: sc vals) (auto simp: Let_def write_matrix_def)

lemma sampled_track_shape:
  assumes "sampled_track frame_time begin_frame end_frame mat sc = (tracko, sc')"
  shows "track_times tracko =
           map (\<lambda>i. real_of_int (i - begin_frame) * frame_time) [begin_frame..end_frame - 1] @
           [real_of_int end_frame * frame_time]"
    and "length (track_values tracko) = 16 * (length [begin_frame..end_frame - 1] + 1)"
proof -
  obtain values0 sc1 where
    s: "sample_values mat (py_range begin_frame end_frame) sc [] = (values0, sc1)"
    by (cases "sample_values mat (py_range begin_frame end_frame) sc []") auto
  from assms s show "track_times tracko =
           map (\<lambda>i. real_of_int (i - begin_frame) * frame_time) [begin_frame..end_frame - 1] @
           [real_of_int end_frame * frame_time]"
    by (auto simp: sampled_track_def Let_def py_range_def)
  from assms s sample_values_length [OF s]
  show "length (track_values tracko) = 16 * (length [begin_frame..end_frame - 1] + 1)"
    by (auto simp: sampled_track_def Let_def py_range_def write_matrix_def)
qed

text \<open>
  C8. Both sampled-animation exporters leave the scene's current frame and subframe as
  they were on entry, whether or not an animation was detected.
\<close>

theorem sampled_animation_restores_frame:
  "frame_current (fst (export_object_sampled_animation self matrix_local sc out))
     = frame_current sc \<and>
   frame_subframe (fst (export_object_sampled_animation self matrix_local sc out))
     = frame_subframe sc \<and>
   frame_current (fst (export_bone_sampled_animation inverted_mul self poseBone sc out act))
     = frame_current sc \<and>
   frame_subframe (fst (export_bone_sampled_animation inverted_mul self poseBone sc out act))
     = frame_subframe sc"
  by (simp add: export_object_sampled_animation_def export_bone_sampled_animation_def
      Let_def frame_set_def split: prod.splits)

lemma upt_0_4: "[0..<4] = [0, 1, 2, 3::nat]"
  by code_simp

lemma upt_0_5: "[0..<5] = [0, 1, 2, 3, 4::nat]"
  by code_simp

lemma upto_1_2: "[1..(2::int)] = [1, 2]"
  by (simp add: upto.simps)

text \<open>
  C4. With the export range 1..3 and a frame duration of 1, an object that moves by one
  unit per frame is exported with one flattened matrix for each of the frames 1, 2 and 3,
  but with the time array \<open>[0, 1, 3]\<close>: the entries written by the loop are relative to
  the first frame of the range, the last entry is \<open>endFrame * frameTime\<close>. The claim
  asks for \<open>[0, 1, 2]\<close>. The bone exporter writes the same time array.
\<close>

theorem sampled_track_last_time_not_relative:
  "animation_tracks (snd (export_object_sampled_animation
       \<lparr>beginFrame = 1, endFrame = 3, frameTime = 1\<rparr> sliding_matrix
       \<lparr>frame_current = 1, frame_subframe = 0\<rparr> \<lparr>animation_tracks = None\<rparr>))
   = Some [\<lparr>track_target = ''transform'', track_times = [0, 1, 3],
            track_values = [1, 0, 0, 1,  0, 1, 0, 0,  0, 0, 1, 0,  0, 0, 0, 1,
                            1, 0, 0, 2,  0, 1, 0, 0,  0, 0, 1, 0,  0, 0, 0, 1,
                            1, 0, 0, 3,  0, 1, 0, 0,  0, 0, 1, 0,  0, 0, 0, 1]\<rparr>] \<and>
   map track_times (case animation_tracks (snd (export_bone_sampled_animation inverted_mul
       \<lparr>beginFrame = 1, endFrame = 3, frameTime = 1\<rparr>
       \<lparr>bone_matrix = sliding_matrix, bone_parent = None\<rparr>
       \<lparr>frame_current = 1, frame_subframe = 0\<rparr> \<lparr>animation_tracks = None\<rparr>
       \<lparr>frame_range = (1, 3)\<rparr>)) of None \<Rightarrow> [] | Some tracks \<Rightarrow> tracks)
   = [[0, 1, 3]]"
  by (simp add: export_object_sampled_animation_def export_bone_sampled_animation_def
      get_action_framerange_def py_int_def sampled_track_def py_range_def upto_1_2
      frame_set_def sliding_matrix_def matrices_different_def ExportEpsilon_def Let_def
      upt_0_4 write_matrix_def)

section \<open>Properties of the skin packer\<close>

lemma five_bones_remap: "build_group_remap five_bones five_bones = [0, 1, 2, 3, 4]"
  by (simp add: build_group_remap_def five_bones_def)

text \<open>
  What one vertex appends: the bone count is the number of contributing groups, capped at
  4, and the bone indices are those of the first four contributing groups in group order,
  sorted by descending \<open>(weight, index)\<close>.
\<close>

lemma gather_bones_count:
  "gather_bones gr els bv tw bc = Inr (bv', tw', bc') \<Longrightarrow> bc' + length bv = bc + length bv'"
proof (induction els arbitrary: bv tw bc)
  case Nil
  then show ?case by simp
next
  case (Cons el els)
  from Cons.prems have g: "group el < length gr" by (simp split: if_splits)
  show ?case
  proof (cases "gr ! group el \<ge> 0 \<and> weight el \<noteq> 0")
    case True
    with Cons.prems g have
      "gather_bones gr els (bv @ [(weight el, gr ! group el)]) (tw + weight el) (bc + 1)
         = Inr (bv', tw', bc')"
      by (simp add: Let_def)
    from Cons.IH [OF this] show ?thesis by simp
  next
    case False
    with Cons.prems g have "gather_bones gr els bv tw bc = Inr (bv', tw', bc')"
      by (auto simp: Let_def)
    from Cons.IH [OF this] show ?thesis .
  qed
qed

lemma normalize_loop_length:
  "normalize_loop nz is bwa = Inr bwa' \<Longrightarrow> length bwa' = length bwa"
  by (induction "is" arbitrary: bwa) (auto split: option.splits)

lemma pack_vertex_retains_first_four:
  assumes p: "pack_vertex gr mva st vi = Inr st'"
    and g: "gather_bones gr (groups (mva ! vi)) [] 0 0 = Inr (bv, tw, bc)"
  shows "bone_count_array st' = bone_count_array st @ [min bc 4]"
    and "bone_index_array st' = bone_index_array st @ map snd (rev (sort (take 4 bv)))"
proof -
  from gather_bones_count [OF g] have bc: "bc = length bv" by simp
  from p have vi: "vi < length mva" by (simp add: pack_vertex_def split: if_splits)
  show "bone_count_array st' = bone_count_array st @ [min bc 4]"
    using p g vi by (auto simp: pack_vertex_def Let_def split: if_splits sum.splits)
  show "bone_index_array st' = bone_index_array st @ map snd (rev (sort (take 4 bv)))"
    using p g vi bc by (auto simp: pack_vertex_def Let_def split: if_splits sum.splits)
qed

text \<open>
  C1. Two vertices, each influenced by one bone with weight \<open>1/2\<close>: the packed weights
  are \<open>2\<close> for the first vertex and \<open>1/2\<close> for the second, where the claim asks for
  \<open>1\<close> and \<open>1\<close>. The normalisation loop multiplies the entries at the Python indices
  \<open>-0, -1, ..., -(bone_count - 1)\<close>, and \<open>-0\<close> is the first entry of the whole array.
  And the claim's own example, one vertex with the weights \<open>0.4, 0.3, 0.2, 0.06, 0.04\<close>,
  packs to the four retained weights unscaled (sum \<open>0.96\<close>), since the divisor is the total
  of all five weights.
\<close>

theorem packed_weights_not_normalized:
  "export_skin_quality five_bones five_bones [weighted_vertex [1 / 2], weighted_vertex [1 / 2]]
     [0, 1]
   = Inr \<lparr>bone_count_array = [1, 1], bone_index_array = [0, 0],
          bone_weight_array = [2, 1 / 2], warn_bones = False\<rparr> \<and>
   export_skin_quality five_bones five_bones
     [weighted_vertex [4 / 10, 3 / 10, 2 / 10, 6 / 100, 4 / 100]] [0]
   = Inr \<lparr>bone_count_array = [4], bone_index_array = [0, 1, 2, 3],
          bone_weight_array = [4 / 10, 3 / 10, 2 / 10, 6 / 100], warn_bones = True\<rparr>"
  by (simp add: export_skin_quality_def five_bones_remap pack_vertex_def weighted_vertex_def
      py_index_def upt_0_4 upt_0_5 Let_def)

text \<open>
  C5. One vertex influenced by five bones, with the weights \<open>1/8, 1/8, 1/8, 1/8, 1/2\<close> in
  group order: the bone count is 4, and the retained bones are 3, 2, 1 and 0, the first
  four in group order. Bone 4, which has the highest weight, is dropped; the claim asks
  for the four highest weights to be retained.
\<close>

theorem clamp_keeps_first_four_not_highest:
  "export_skin_quality five_bones five_bones
     [weighted_vertex [1 / 8, 1 / 8, 1 / 8, 1 / 8, 1 / 2]] [0]
   = Inr \<lparr>bone_count_array = [4], bone_index_array = [3, 2, 1, 0],
          bone_weight_array = [1 / 8, 1 / 8, 1 / 8, 1 / 8], warn_bones = True\<rparr>"
  by (simp add: export_skin_quality_def five_bones_remap pack_vertex_def weighted_vertex_def
      py_index_def upt_0_4 upt_0_5 Let_def)

section \<open>Properties of the geometry deduplicator\<close>

subsection \<open>The bucket count\<close>

lemma pow2_and_mask: "(2::nat) ^ k AND mask k = 0"
  by (rule bit_eqI) (auto simp: bit_and_iff bit_exp_iff bit_mask_iff)

lemma pow2_and_pred: "(2::nat) ^ k AND (2 ^ k - 1) = 0"
  using pow2_and_mask [of k] by (simp add: mask_eq_exp_minus_1)

lemma bit_top: "2 ^ k \<le> (n::nat) \<Longrightarrow> n < 2 ^ Suc k \<Longrightarrow> bit n k"
proof -
  assume a: "2 ^ k \<le> n" "n < 2 ^ Suc k"
  have "n div 2 ^ k = 1"
    using a by (auto simp: div_nat_eqI)
  then show ?thesis by (simp add: bit_iff_odd)
qed

lemma bit_ge: "bit (n::nat) k \<Longrightarrow> 2 ^ k \<le> n"
  by (metis bit_iff_odd div_less even_zero not_le)

lemma and_le_right: "(a::nat) AND b \<le> b"
proof -
  have "int (a AND b) \<le> int b" unfolding of_nat_and_eq by (rule AND_upper2) simp
  then show ?thesis by simp
qed

lemma and_pred_range:
  assumes "2 ^ k < (b::nat)" "b < 2 ^ Suc k"
  shows "2 ^ k \<le> b AND (b - 1)" "b AND (b - 1) < b"
proof -
  have "bit b k" using assms by (intro bit_top) simp_all
  moreover have "bit (b - 1) k" using assms by (intro bit_top) simp_all
  ultimately have "bit (b AND (b - 1)) k" by (simp add: bit_and_iff)
  then show "2 ^ k \<le> b AND (b - 1)" by (rule bit_ge)
  have "b AND (b - 1) \<le> b - 1" by (rule and_le_right)
  with assms show "b AND (b - 1) < b" by simp
qed

lemma round_down_pow2_range:
  "2 ^ k \<le> b \<Longrightarrow> b < 2 ^ Suc k \<Longrightarrow> round_down_pow2 b = 2 ^ k"
proof (induction b rule: less_induct)
  case (less b)
  show ?case
  proof (cases "b = 2 ^ k")
    case True
    then show ?thesis
      using pow2_and_pred [of k] by (subst round_down_pow2.simps) simp
  next
    case False
    with less.prems have lt: "2 ^ k < b" by simp
    let ?c = "b AND (b - 1)"
    from and_pred_range [OF lt less.prems(2)]
    have c: "2 ^ k \<le> ?c" "?c < b" by simp_all
    have pos: "0 < (2::nat) ^ k" by simp
    have nz: "?c \<noteq> 0" using c(1) pos by linarith
    have "round_down_pow2 ?c = 2 ^ k"
      using less.IH [OF c(2) c(1)] c(2) less.prems(2) by simp
    with nz show ?thesis
      by (subst round_down_pow2.simps) (simp add: Let_def)
  qed
qed

lemma ex_log2: "0 < (m::nat) \<Longrightarrow> \<exists>k. 2 ^ k \<le> m \<and> m < 2 ^ Suc k"
proof (induction m rule: less_induct)
  case (less m)
  show ?case
  proof (cases "m = 1")
    case True
    then have "2 ^ 0 \<le> m \<and> m < 2 ^ Suc 0" by simp
    then show ?thesis by blast
  next
    case False
    with less.prems have "0 < m div 2" "m div 2 < m" by auto
    from less.IH [OF this(2) this(1)] obtain k where "2 ^ k \<le> m div 2" "m div 2 < 2 ^ Suc k"
      by blast
    then have "2 ^ Suc k \<le> m \<and> m < 2 ^ Suc (Suc k)" by auto
    then show ?thesis by blast
  qed
qed

lemma bucket_count_spec:
  "(n div 8 \<le> 1 \<longrightarrow> bucket_count n = 1) \<and>
   (1 \<le> n div 8 \<longrightarrow> (\<exists>k. bucket_count n = 2 ^ k \<and> 2 ^ k \<le> n div 8 \<and> n div 8 < 2 * 2 ^ k))"
proof (cases "n div 8 \<le> 1")
  case True
  then have b: "bucket_count n = 1" by (simp add: bucket_count_def drop_bit_eq_div)
  have "1 \<le> n div 8 \<Longrightarrow> bucket_count n = 2 ^ 0 \<and> 2 ^ 0 \<le> n div 8 \<and> n div 8 < 2 * 2 ^ 0"
    using True b by simp
  with True b show ?thesis by blast
next
  case False
  then have "0 < n div 8" by simp
  from ex_log2 [OF this] obtain k where k: "2 ^ k \<le> n div 8" "n div 8 < 2 ^ Suc k" by blast
  from False have "bucket_count n = round_down_pow2 (n div 8)"
    by (simp add: bucket_count_def drop_bit_eq_div Let_def)
  with round_down_pow2_range [OF k] have "bucket_count n = 2 ^ k" by simp
  with k False show ?thesis by auto
qed

subsection \<open>The welding loop\<close>

lemma ev_eq_refl: "ev_eq a a"
  by (simp add: ev_eq_def)

lemma ev_eq_sym: "ev_eq a b \<Longrightarrow> ev_eq b a"
  by (simp add: ev_eq_def split: if_splits)

lemma ev_eq_trans: "ev_eq a b \<Longrightarrow> ev_eq b c \<Longrightarrow> ev_eq a c"
  by (simp add: ev_eq_def split: if_splits)

lemma ev_eq_bucket: "ev_eq a b \<Longrightarrow> bucket_of bc a = bucket_of bc b"
  by (simp add: ev_eq_def bucket_of_def split: if_splits)

lemma bucket_of_lt: "0 < bc \<Longrightarrow> bucket_of bc ev < bc"
proof -
  assume "0 < bc"
  then have nn: "0 \<le> int bc - 1" by simp
  define z where "z = hash ev AND (int bc - 1)"
  have "z \<le> int bc - 1" unfolding z_def using nn by (rule AND_upper2)
  moreover have "0 \<le> z" unfolding z_def using nn by simp
  ultimately have "nat z < bc" by linarith
  then show ?thesis by (simp add: bucket_of_def z_def)
qed

lemma find_in_bucket_cases:
  "\<forall>b \<in> set bs. b < length eva \<Longrightarrow>
     (find_in_bucket eva ev bs = Inr (- 1) \<and> (\<forall>b \<in> set bs. \<not> ev_eq (eva ! b) ev)) \<or>
     (\<exists>b \<in> set bs. find_in_bucket eva ev bs = Inr (int b) \<and> ev_eq (eva ! b) ev)"
  by (induction bs) auto

lemma first_occ_exists:
  assumes "j < i" "ev_eq (eva ! j) (eva ! i)"
  shows "\<exists>j0<i. first_occ eva j0 \<and> ev_eq (eva ! j0) (eva ! i)"
proof -
  define j0 where "j0 = (LEAST j. ev_eq (eva ! j) (eva ! i))"
  have e: "ev_eq (eva ! j0) (eva ! i)"
    unfolding j0_def using assms(2) by (rule LeastI)
  have le: "j0 \<le> j" unfolding j0_def using assms(2) by (rule Least_le)
  have "first_occ eva j0"
    unfolding first_occ_def
  proof (intro allI impI notI)
    fix j' assume "j' < j0" "ev_eq (eva ! j') (eva ! j0)"
    then have "ev_eq (eva ! j') (eva ! i)" using e ev_eq_trans by blast
    then have "j0 \<le> j'" unfolding j0_def by (rule Least_le)
    with \<open>j' < j0\<close> show False by simp
  qed
  moreover from le assms(1) have "j0 < i" by simp
  ultimately show ?thesis using e by blast
qed

lemma unify_step_inv:
  assumes i: "i < length eva" and bc: "0 < bc" and inv: "unify_inv eva bc i st"
  shows "\<exists>st'. unify_step eva bc st i = Inr st' \<and> unify_inv eva bc (Suc i) st'"
proof -
  let ?ev = "eva ! i"
  let ?bucket = "bucket_of bc ?ev"
  let ?bs = "hashTable st ! ?bucket"
  have len: "length (hashTable st) = bc"
    and tab0: "\<forall>b<bc. set (hashTable st ! b) =
                {j. j < i \<and> first_occ eva j \<and> bucket_of bc (eva ! j) = b}"
    and uva: "unifiedVA st = map (\<lambda>j. eva ! j) (filter (first_occ eva) [0..<i])"
    and itl: "length (indexTable st) = i"
    and itv0: "\<forall>j<i. indexTable st ! j < length (unifiedVA st) \<and>
                ev_eq (unifiedVA st ! (indexTable st ! j)) (eva ! j)"
    using inv unfolding unify_inv_def by blast+
  note tab = tab0 [rule_format]
  note itv = itv0 [rule_format]
  have bl: "?bucket < bc" using bc by (rule bucket_of_lt)
  have bs: "set ?bs = {j. j < i \<and> first_occ eva j \<and> bucket_of bc (eva ! j) = ?bucket}"
    using tab [OF bl] .
  then have inr: "\<forall>b \<in> set ?bs. b < length eva" using i by auto
  from find_in_bucket_cases [OF inr, of ?ev]
  consider (miss) "find_in_bucket eva ?ev ?bs = Inr (- 1)" "\<forall>b \<in> set ?bs. \<not> ev_eq (eva ! b) ?ev"
    | (hit) b where "b \<in> set ?bs" "find_in_bucket eva ?ev ?bs = Inr (int b)" "ev_eq (eva ! b) ?ev"
    by blast
  then show ?thesis
  proof cases
    case miss
    have fo: "first_occ eva i"
    proof (rule ccontr)
      assume "\<not> first_occ eva i"
      then obtain j where "j < i" "ev_eq (eva ! j) ?ev" by (auto simp: first_occ_def)
      from first_occ_exists [OF this] obtain j0 where
        j0: "j0 < i" "first_occ eva j0" "ev_eq (eva ! j0) ?ev" by blast
      then have "j0 \<in> set ?bs" using bs ev_eq_bucket [OF j0(3)] by simp
      with miss(2) j0(3) show False by blast
    qed
    let ?st' = "st\<lparr>indexTable := indexTable st @ [length (unifiedVA st)],
                   unifiedVA := unifiedVA st @ [?ev],
                   hashTable := (hashTable st)[?bucket := ?bs @ [i]]\<rparr>"
    have step: "unify_step eva bc st i = Inr ?st'"
      using i bl len miss(1) by (simp add: unify_step_def Let_def)
    have "unify_inv eva bc (Suc i) ?st'"
      unfolding unify_inv_def
    proof (intro conjI allI impI)
      show "length (hashTable ?st') = bc" using len by simp
    next
      fix b assume b: "b < bc"
      show "set (hashTable ?st' ! b) =
              {j. j < Suc i \<and> first_occ eva j \<and> bucket_of bc (eva ! j) = b}"
      proof (cases "b = ?bucket")
        case True
        then have "set (hashTable ?st' ! b) = insert i (set ?bs)" using bl len by simp
        also have "\<dots> = {j. j < Suc i \<and> first_occ eva j \<and> bucket_of bc (eva ! j) = b}"
          using bs fo True by (auto simp: less_Suc_eq)
        finally show ?thesis .
      next
        case False
        then have "set (hashTable ?st' ! b) = set (hashTable st ! b)" by simp
        also have "\<dots> = {j. j < i \<and> first_occ eva j \<and> bucket_of bc (eva ! j) = b}"
          using tab [OF b] .
        also have "\<dots> = {j. j < Suc i \<and> first_occ eva j \<and> bucket_of bc (eva ! j) = b}"
          using False by (auto simp: less_Suc_eq)
        finally show ?thesis .
      qed
    next
      show "unifiedVA ?st' = map (\<lambda>j. eva ! j) (filter (first_occ eva) [0..<Suc i])"
        using uva fo by simp
    next
      show "length (indexTable ?st') = Suc i" using itl by simp
    next
      fix j assume j: "j < Suc i"
      show "indexTable ?st' ! j < length (unifiedVA ?st')"
        using itv [of j] itl j by (cases "j = i") (simp_all add: nth_append)
      show "ev_eq (unifiedVA ?st' ! (indexTable ?st' ! j)) (eva ! j)"
        using itv [of j] itl j by (cases "j = i") (simp_all add: nth_append ev_eq_refl)
    qed
    with step show ?thesis by blast
  next
    case hit
    from hit(1) bs have b: "b < i" "first_occ eva b" by simp_all
    have nfo: "\<not> first_occ eva i" using b(1) hit(3) by (auto simp: first_occ_def)
    let ?st' = "st\<lparr>indexTable := indexTable st @ [indexTable st ! b]\<rparr>"
    have step: "unify_step eva bc st i = Inr ?st'"
      using i bl len hit(2) b(1) itl by (simp add: unify_step_def Let_def)
    have "unify_inv eva bc (Suc i) ?st'"
      unfolding unify_inv_def
    proof (intro conjI allI impI)
      show "length (hashTable ?st') = bc" using len by simp
    next
      fix b' assume b': "b' < bc"
      have "set (hashTable ?st' ! b') = {j. j < i \<and> first_occ eva j \<and> bucket_of bc (eva ! j) = b'}"
        using tab [OF b'] by simp
      also have "\<dots> = {j. j < Suc i \<and> first_occ eva j \<and> bucket_of bc (eva ! j) = b'}"
        using nfo by (auto simp: less_Suc_eq)
      finally show "set (hashTable ?st' ! b') =
              {j. j < Suc i \<and> first_occ eva j \<and> bucket_of bc (eva ! j) = b'}" .
    next
      show "unifiedVA ?st' = map (\<lambda>j. eva ! j) (filter (first_occ eva) [0..<Suc i])"
        using uva nfo by simp
    next
      show "length (indexTable ?st') = Suc i" using itl by simp
    next
      fix j assume j: "j < Suc i"
      show "indexTable ?st' ! j < length (unifiedVA ?st')"
        using itv [of j] itv [of b] b(1) itl j by (cases "j = i") (simp_all add: nth_append)
      show "ev_eq (unifiedVA ?st' ! (indexTable ?st' ! j)) (eva ! j)"
      proof (cases "j = i")
        case True
        have "ev_eq (unifiedVA st ! (indexTable st ! b)) (eva ! b)" using itv [OF b(1)] by simp
        then have "ev_eq (unifiedVA st ! (indexTable st ! b)) ?ev" using hit(3) ev_eq_trans by blast
        with True itl show ?thesis by (simp add: nth_append)
      next
        case False
        with j have "j < i" by simp
        with itv [of j] itl show ?thesis by (simp add: nth_append)
      qed
    qed
    with step show ?thesis by blast
  qed
qed

lemma unify_loop_inv:
  "0 < bc \<Longrightarrow> i \<le> length eva \<Longrightarrow> unify_inv eva bc i st \<Longrightarrow>
     \<exists>st'. unify_loop eva bc [i..<length eva] st = Inr st' \<and> unify_inv eva bc (length eva) st'"
proof (induction "length eva - i" arbitrary: i st)
  case 0
  then show ?case by simp
next
  case (Suc d)
  then have i: "i < length eva" by simp
  from unify_step_inv [OF i Suc.prems(1) Suc.prems(3)] obtain st1 where
    st1: "unify_step eva bc st i = Inr st1" "unify_inv eva bc (Suc i) st1" by blast
  have "d = length eva - Suc i" using Suc.hyps(2) by simp
  from Suc.hyps(1) [OF this Suc.prems(1) _ st1(2)] i obtain st' where
    "unify_loop eva bc [Suc i..<length eva] st1 = Inr st'" "unify_inv eva bc (length eva) st'"
    by auto
  with st1(1) i show ?case by (simp add: upt_conv_Cons)
qed

subsection \<open>De-indexing\<close>

lemma triangle_length: "triangle va face fi a b c = Inr t \<Longrightarrow> length t = 3"
  by (auto simp: triangle_def Let_def split: if_splits sum.splits)

lemma deindex_faces_length:
  "deindex_faces va faces fi eva mt = Inr (eva', mt') \<Longrightarrow>
     length eva' = length eva + sum_list (map corner_count faces)"
proof (induction faces arbitrary: fi eva mt)
  case Nil
  then show ?case by simp
next
  case (Cons face faces)
  from Cons.prems obtain t1 where t1: "triangle va face fi 0 1 2 = Inr t1"
    by (auto split: sum.splits)
  show ?case
  proof (cases "length (face_vertices face) = 4")
    case True
    with Cons.prems t1 obtain t2 where t2: "triangle va face fi 0 2 3 = Inr t2"
      by (auto split: sum.splits)
    with Cons.prems t1 True have
      "deindex_faces va faces (fi + 1) (eva @ t1 @ t2)
         (mt @ [material_index face, material_index face]) = Inr (eva', mt')"
      by simp
    from Cons.IH [OF this] triangle_length [OF t1] triangle_length [OF t2] True
    show ?thesis by (simp add: corner_count_def)
  next
    case False
    with Cons.prems t1 have
      "deindex_faces va faces (fi + 1) (eva @ t1) (mt @ [material_index face]) = Inr (eva', mt')"
      by simp
    from Cons.IH [OF this] triangle_length [OF t1] False
    show ?thesis by (simp add: corner_count_def)
  qed
qed

lemma assign_seq_length: "assign_seq upd eva vi xs = Inr eva' \<Longrightarrow> length eva' = length eva"
  by (induction xs arbitrary: eva vi) (auto split: if_splits)

lemma assign_seq_bound:
  "assign_seq upd eva vi xs = Inr eva' \<Longrightarrow> xs \<noteq> [] \<Longrightarrow> vi + length xs \<le> length eva"
proof (induction xs arbitrary: eva vi)
  case Nil
  then show ?case by simp
next
  case (Cons x xs)
  from Cons.prems(1) have vi: "vi < length eva"
    and rec: "assign_seq upd (eva[vi := upd (eva ! vi) x]) (vi + 1) xs = Inr eva'"
    by (auto split: if_splits)
  show ?case
  proof (cases "xs = []")
    case True
    with vi show ?thesis by simp
  next
    case False
    from Cons.IH [OF rec False] show ?thesis by simp
  qed
qed

lemma assign_seq_other:
  "assign_seq upd eva vi xs = Inr eva' \<Longrightarrow> (\<And>ev x. g (upd ev x) = g ev) \<Longrightarrow>
     map g eva' = map g eva"
proof (induction xs arbitrary: eva vi)
  case Nil
  then show ?case by simp
next
  case (Cons x xs)
  from Cons.prems(1) have vi: "vi < length eva"
    and rec: "assign_seq upd (eva[vi := upd (eva ! vi) x]) (vi + 1) xs = Inr eva'"
    by (auto split: if_splits)
  from Cons.IH [OF rec Cons.prems(2)]
  have "map g eva' = map g (eva[vi := upd (eva ! vi) x])" .
  also have "\<dots> = (map g eva)[vi := g (eva ! vi)]"
    by (simp add: map_update Cons.prems(2))
  also have "\<dots> = map g eva" using vi by (simp add: list_update_same_conv)
  finally show ?case .
qed

lemma assign_seq_written:
  "assign_seq upd eva vi xs = Inr eva' \<Longrightarrow> (\<And>ev x. g (upd ev x) = x) \<Longrightarrow>
     map g eva' = take vi (map g eva) @ xs @ drop (vi + length xs) (map g eva)"
proof (induction xs arbitrary: eva vi)
  case Nil
  then show ?case by simp
next
  case (Cons x xs)
  from Cons.prems(1) have vi: "vi < length eva"
    and rec: "assign_seq upd (eva[vi := upd (eva ! vi) x]) (vi + 1) xs = Inr eva'"
    by (auto split: if_splits)
  let ?L = "map g eva"
  have L1: "map g (eva[vi := upd (eva ! vi) x]) = ?L[vi := x]"
    by (simp add: map_update Cons.prems(2))
  from Cons.IH [OF rec Cons.prems(2)]
  have "map g eva' = take (vi + 1) (?L[vi := x]) @ xs @ drop (vi + 1 + length xs) (?L[vi := x])"
    by (simp only: L1)
  also have "take (vi + 1) (?L[vi := x]) = take vi ?L @ [x]"
    using vi by (simp add: take_Suc_conv_app_nth)
  also have "drop (vi + 1 + length xs) (?L[vi := x]) = drop (vi + length (x # xs)) ?L"
    by simp
  finally show ?case by simp
qed

lemma assign_pass_length:
  "assign_pass upd vals faces layer vi fi eva = Inr eva' \<Longrightarrow> length eva' = length eva"
proof (induction faces arbitrary: vi fi eva)
  case Nil
  then show ?case by simp
next
  case (Cons face faces)
  from Cons.prems(1) obtain eva1 where s: "assign_seq upd eva vi (vals face (layer ! fi)) = Inr eva1"
    and r: "assign_pass upd vals faces layer (vi + length (vals face (layer ! fi))) (fi + 1) eva1
              = Inr eva'"
    by (auto split: if_splits sum.splits)
  from Cons.IH [OF r] assign_seq_length [OF s] show ?case by simp
qed

lemma assign_pass_layer:
  "assign_pass upd vals faces layer vi fi eva = Inr eva' \<Longrightarrow> fi + length faces \<le> length layer \<or> faces = []"
proof (induction faces arbitrary: vi fi eva)
  case Nil
  then show ?case by simp
next
  case (Cons face faces)
  from Cons.prems(1) obtain eva1 where fi: "fi < length layer"
    and r: "assign_pass upd vals faces layer (vi + length (vals face (layer ! fi))) (fi + 1) eva1
              = Inr eva'"
    by (auto split: if_splits sum.splits)
  from Cons.IH [OF r] fi show ?case by auto
qed

lemma assign_pass_other:
  "assign_pass upd vals faces layer vi fi eva = Inr eva' \<Longrightarrow> (\<And>ev x. g (upd ev x) = g ev) \<Longrightarrow>
     map g eva' = map g eva"
proof (induction faces arbitrary: vi fi eva)
  case Nil
  then show ?case by simp
next
  case (Cons face faces)
  from Cons.prems(1) obtain eva1 where s: "assign_seq upd eva vi (vals face (layer ! fi)) = Inr eva1"
    and r: "assign_pass upd vals faces layer (vi + length (vals face (layer ! fi))) (fi + 1) eva1
              = Inr eva'"
    by (auto split: if_splits sum.splits)
  have "map g eva' = map g eva1" using r Cons.prems(2) by (rule Cons.IH)
  also have "map g eva1 = map g eva" using s Cons.prems(2) by (rule assign_seq_other [where g = g])
  finally show ?case .
qed

lemma assign_pass_written:
  "assign_pass upd vals faces layer vi fi eva = Inr eva' \<Longrightarrow> (\<And>ev x. g (upd ev x) = x) \<Longrightarrow>
   (\<And>face d. vals face d \<noteq> []) \<Longrightarrow> vi \<le> length eva \<Longrightarrow>
     map g eva' = take vi (map g eva) @ concat (map2 vals faces (drop fi layer)) @
                  drop (vi + length (concat (map2 vals faces (drop fi layer)))) (map g eva)"
proof (induction faces arbitrary: vi fi eva)
  case Nil
  then show ?case by simp
next
  case (Cons face faces)
  let ?xs = "vals face (layer ! fi)"
  from Cons.prems(1) obtain eva1 where fi: "fi < length layer"
    and s: "assign_seq upd eva vi ?xs = Inr eva1"
    and r: "assign_pass upd vals faces layer (vi + length ?xs) (fi + 1) eva1 = Inr eva'"
    by (auto split: if_splits sum.splits)
  let ?L = "map g eva"
  let ?vs = "concat (map2 vals faces (drop (fi + 1) layer))"
  have b: "vi + length ?xs \<le> length eva"
    using assign_seq_bound [OF s Cons.prems(3)] .
  have L1: "map g eva1 = take vi ?L @ ?xs @ drop (vi + length ?xs) ?L"
    using s Cons.prems(2) by (rule assign_seq_written [where g = g])
  have len1: "length eva1 = length eva" using assign_seq_length [OF s] .
  have "map g eva' = take (vi + length ?xs) (map g eva1) @ ?vs @
                     drop (vi + length ?xs + length ?vs) (map g eva1)"
    using Cons.IH [OF r Cons.prems(2) Cons.prems(3)] b len1 by simp
  also have "take (vi + length ?xs) (map g eva1) = take vi ?L @ ?xs"
    using b by (simp add: L1)
  also have "drop (vi + length ?xs + length ?vs) (map g eva1)
             = drop (vi + length ?xs + length ?vs) ?L"
    using b by (simp add: L1 add.commute add.left_commute)
  finally have "map g eva' = take vi ?L @ (?xs @ ?vs) @ drop (vi + length (?xs @ ?vs)) ?L"
    by (simp add: add.assoc)
  moreover have "drop fi layer = layer ! fi # drop (fi + 1) layer"
    using fi by (simp add: Cons_nth_drop_Suc)
  ultimately show ?case by simp
qed

subsection \<open>Texture coordinates of the de-indexed mesh\<close>

lemma face_texcoords_flip: "face_texcoords face tf = map flip_v (corner_uvs face tf)"
  by (simp add: face_texcoords_def corner_uvs_def flip_v_def)

lemma face_texcoords_length: "length (face_texcoords face tf) = corner_count face"
  by (simp add: face_texcoords_def corner_count_def)

lemma face_texcoords_nonempty: "face_texcoords face tf \<noteq> []"
  by (simp add: face_texcoords_def)

lemma concat_face_texcoords_flip:
  "concat (map2 face_texcoords faces layer) = map flip_v (concat (map2 corner_uvs faces layer))"
proof -
  have "map2 face_texcoords faces layer = map (map flip_v) (map2 corner_uvs faces layer)"
    by (simp add: face_texcoords_flip split_beta)
  then show ?thesis by (simp only: map_concat)
qed

lemma concat_face_texcoords_length:
  "length faces \<le> length layer \<Longrightarrow>
     length (concat (map2 face_texcoords faces layer)) = sum_list (map corner_count faces)"
proof (induction faces arbitrary: layer)
  case Nil
  then show ?case by simp
next
  case (Cons face faces)
  then obtain tf layer' where "layer = tf # layer'" by (cases layer) auto
  with Cons show ?case by (simp add: face_texcoords_length)
qed

lemma texcoord0_Hash: "texcoord0 (Hash py_hash ev) = texcoord0 ev"
  by (simp add: Hash_def Let_def split_beta)

lemma texcoord1_Hash: "texcoord1 (Hash py_hash ev) = texcoord1 ev"
  by (simp add: Hash_def Let_def split_beta)

lemma texcoord_pass_all:
  assumes p: "assign_pass upd face_texcoords faces layer 0 0 eva = Inr eva'"
    and g: "\<And>ev x. g (upd ev x) = x"
    and len: "length eva = sum_list (map corner_count faces)"
  shows "map g eva' = concat (map2 face_texcoords faces layer)"
proof -
  let ?vs = "concat (map2 face_texcoords faces layer)"
  have "length ?vs = length eva"
  proof (cases "faces = []")
    case True
    with len show ?thesis by simp
  next
    case False
    with assign_pass_layer [OF p] have "length faces \<le> length layer" by simp
    from concat_face_texcoords_length [OF this] len show ?thesis by simp
  qed
  moreover have "map g eva' = take 0 (map g eva) @ concat (map2 face_texcoords faces (drop 0 layer)) @
         drop (0 + length (concat (map2 face_texcoords faces (drop 0 layer)))) (map g eva)"
    using p g face_texcoords_nonempty by (rule assign_pass_written [where g = g]) simp
  ultimately show ?thesis by simp
qed

lemma deindex_mesh_texcoords:
  assumes d: "deindex_mesh py_hash m mt0 = Inr (eva, mt)"
  shows "0 < length (tessface_uv_textures m) \<Longrightarrow>
           map texcoord0 eva = concat (map2 face_texcoords (tessfaces m) (tessface_uv_textures m ! 0))"
    and "1 < length (tessface_uv_textures m) \<Longrightarrow>
           map texcoord1 eva = concat (map2 face_texcoords (tessfaces m) (tessface_uv_textures m ! 1))"
proof -
  from d obtain eva0 mt' where f: "deindex_faces (vertices m) (tessfaces m) 0 [] mt0 = Inr (eva0, mt')"
    by (auto simp: deindex_mesh_def split: sum.splits)
  from d f obtain eva1 where
    c: "(if length (tessface_vertex_colors m) > 0 then
           assign_pass (\<lambda>ev c. ev\<lparr>color := c\<rparr>) face_colors (tessfaces m)
             (tessface_vertex_colors m ! 0) 0 0 eva0
         else Inr eva0) = Inr eva1"
    by (auto simp: deindex_mesh_def split: sum.splits)
  have l1: "length eva1 = sum_list (map corner_count (tessfaces m))"
    using c deindex_faces_length [OF f] by (auto split: if_splits dest!: assign_pass_length)
  from d f c obtain eva3 where
    t: "(if length (tessface_uv_textures m) > 0 then
           (case assign_pass (\<lambda>ev t. ev\<lparr>texcoord0 := t\<rparr>) face_texcoords
                   (tessfaces m) (tessface_uv_textures m ! 0) 0 0 eva1 of
              Inl e \<Rightarrow> Inl e
            | Inr eva2 \<Rightarrow>
                if length (tessface_uv_textures m) > 1 then
                  assign_pass (\<lambda>ev t. ev\<lparr>texcoord1 := t\<rparr>) face_texcoords
                    (tessfaces m) (tessface_uv_textures m ! 1) 0 0 eva2
                else Inr eva2)
         else Inr eva1) = Inr eva3"
    and e: "eva = map (Hash py_hash) eva3"
    by (auto simp: deindex_mesh_def split: sum.splits)
  {
    assume n0: "0 < length (tessface_uv_textures m)"
    with t obtain eva2 where
      p0: "assign_pass (\<lambda>ev t. ev\<lparr>texcoord0 := t\<rparr>) face_texcoords
             (tessfaces m) (tessface_uv_textures m ! 0) 0 0 eva1 = Inr eva2"
      and p1: "(if length (tessface_uv_textures m) > 1 then
                  assign_pass (\<lambda>ev t. ev\<lparr>texcoord1 := t\<rparr>) face_texcoords
                    (tessfaces m) (tessface_uv_textures m ! 1) 0 0 eva2
                else Inr eva2) = Inr eva3"
      by (auto split: sum.splits)
    have w0: "map texcoord0 eva2 = concat (map2 face_texcoords (tessfaces m) (tessface_uv_textures m ! 0))"
      using p0 _ l1 by (rule texcoord_pass_all [where g = texcoord0]) simp
    have "map texcoord0 eva3 = map texcoord0 eva2"
    proof (cases "length (tessface_uv_textures m) > 1")
      case True
      with p1 have "assign_pass (\<lambda>ev t. ev\<lparr>texcoord1 := t\<rparr>) face_texcoords
                    (tessfaces m) (tessface_uv_textures m ! 1) 0 0 eva2 = Inr eva3" by simp
      then show ?thesis by (rule assign_pass_other [where g = texcoord0]) simp
    next
      case False
      with p1 show ?thesis by simp
    qed
    with w0 e show "map texcoord0 eva = concat (map2 face_texcoords (tessfaces m) (tessface_uv_textures m ! 0))"
      by (simp add: texcoord0_Hash comp_def)
  }
  {
    assume n1: "1 < length (tessface_uv_textures m)"
    with t obtain eva2 where
      p0: "assign_pass (\<lambda>ev t. ev\<lparr>texcoord0 := t\<rparr>) face_texcoords
             (tessfaces m) (tessface_uv_textures m ! 0) 0 0 eva1 = Inr eva2"
      and p1: "assign_pass (\<lambda>ev t. ev\<lparr>texcoord1 := t\<rparr>) face_texcoords
                    (tessfaces m) (tessface_uv_textures m ! 1) 0 0 eva2 = Inr eva3"
      by (auto split: sum.splits if_splits)
    have l2: "length eva2 = sum_list (map corner_count (tessfaces m))"
      using assign_pass_length [OF p0] l1 by simp
    have "map texcoord1 eva3 = concat (map2 face_texcoords (tessfaces m) (tessface_uv_textures m ! 1))"
      using p1 _ l2 by (rule texcoord_pass_all [where g = texcoord1]) simp
    with e show "map texcoord1 eva = concat (map2 face_texcoords (tessfaces m) (tessface_uv_textures m ! 1))"
      by (simp add: texcoord1_Hash comp_def)
  }
qed

subsection \<open>Texture coordinates of the fast export\<close>

lemma store_seq_result:
  "store_seq xs base vs = Inr xs' \<Longrightarrow> xs' = take base xs @ vs @ drop (base + length vs) xs"
proof (induction vs arbitrary: xs base)
  case Nil
  then show ?case by simp
next
  case (Cons v vs)
  from Cons.prems have b: "base < length xs"
    and r: "store_seq (xs[base := v]) (base + 1) vs = Inr xs'"
    by (auto split: if_splits)
  from Cons.IH [OF r]
  have "xs' = take (base + 1) (xs[base := v]) @ vs @ drop (base + 1 + length vs) (xs[base := v])" .
  also have "take (base + 1) (xs[base := v]) = take base xs @ [v]"
    using b by (simp add: take_Suc_conv_app_nth)
  also have "drop (base + 1 + length vs) (xs[base := v]) = drop (base + length (v # vs)) xs"
    by simp
  finally show ?case by simp
qed

lemma store_seq_bound:
  "store_seq xs base vs = Inr xs' \<Longrightarrow> vs \<noteq> [] \<Longrightarrow> base + length vs \<le> length xs"
proof (induction vs arbitrary: xs base)
  case Nil
  then show ?case by simp
next
  case (Cons v vs)
  from Cons.prems(1) have b: "base < length xs"
    and r: "store_seq (xs[base := v]) (base + 1) vs = Inr xs'"
    by (auto split: if_splits)
  show ?case
  proof (cases "vs = []")
    case True
    with b show ?thesis by simp
  next
    case False
    from Cons.IH [OF r False] show ?thesis by simp
  qed
qed

lemma fill_vertex_t0:
  assumes "fill_vertex True has_tex1 has_col i vtx arrs = Inr arrs'"
  shows "t0data arrs' = take (i * 2) (t0data arrs) @ flipped_pair (uvs vtx ! 0) @
                         drop (i * 2 + 2) (t0data arrs)"
    and "i * 2 + 2 \<le> length (t0data arrs)"
proof -
  from assms obtain t0 where
    s: "store_seq (t0data arrs) (i * 2) [fst (uvs vtx ! 0), 1 - snd (uvs vtx ! 0)] = Inr t0"
    and e: "t0data arrs' = t0"
    by (auto simp: fill_vertex_def Let_def split_beta split: sum.splits if_splits)
  from store_seq_result [OF s] e
  show "t0data arrs' = take (i * 2) (t0data arrs) @ flipped_pair (uvs vtx ! 0) @
                         drop (i * 2 + 2) (t0data arrs)"
    by (simp add: flipped_pair_def flip_v_def)
  from store_seq_bound [OF s] show "i * 2 + 2 \<le> length (t0data arrs)" by simp
qed

lemma fill_vertex_t1:
  assumes "fill_vertex True True has_col i vtx arrs = Inr arrs'"
  shows "t1data arrs' = take (i * 2) (t1data arrs) @ flipped_pair (uvs vtx ! 1) @
                         drop (i * 2 + 2) (t1data arrs)"
    and "i * 2 + 2 \<le> length (t1data arrs)"
proof -
  from assms obtain t1 where
    s: "store_seq (t1data arrs) (i * 2) [fst (uvs vtx ! 1), 1 - snd (uvs vtx ! 1)] = Inr t1"
    and e: "t1data arrs' = t1"
    by (auto simp: fill_vertex_def Let_def split_beta split: sum.splits if_splits)
  from store_seq_result [OF s] e
  show "t1data arrs' = take (i * 2) (t1data arrs) @ flipped_pair (uvs vtx ! 1) @
                         drop (i * 2 + 2) (t1data arrs)"
    by (simp add: flipped_pair_def flip_v_def)
  from store_seq_bound [OF s] show "i * 2 + 2 \<le> length (t1data arrs)" by simp
qed

lemma splice_step:
  assumes T1: "T1 = take (i * 2) T @ p @ drop (i * 2 + 2) T"
    and p: "length p = 2" and b: "i * 2 + 2 \<le> length (T::real list)"
    and R: "R = take ((i + 1) * 2) T1 @ c @ drop ((i + 1) * 2 + 2 * n) T1"
  shows "R = take (i * 2) T @ (p @ c) @ drop (i * 2 + 2 * Suc n) T"
proof -
  have "take ((i + 1) * 2) T1 = take (i * 2) T @ p"
    using p b by (simp add: T1)
  moreover have "drop ((i + 1) * 2 + 2 * n) T1 = drop (i * 2 + 2 * Suc n) T"
    using p b by (simp add: T1 add.commute add.left_commute)
  ultimately show ?thesis using R by simp
qed

lemma fill_arrays_t0:
  "fill_arrays True has_tex1 has_col i vl arrs = Inr arrs' \<Longrightarrow>
     t0data arrs' = take (i * 2) (t0data arrs) @ concat (map (\<lambda>v. flipped_pair (uvs v ! 0)) vl) @
                    drop (i * 2 + 2 * length vl) (t0data arrs)"
proof (induction vl arbitrary: i arrs)
  case Nil
  then show ?case by simp
next
  case (Cons vtx vl)
  from Cons.prems obtain arrs1 where
    s: "fill_vertex True has_tex1 has_col i vtx arrs = Inr arrs1"
    and r: "fill_arrays True has_tex1 has_col (i + 1) vl arrs1 = Inr arrs'"
    by (auto split: sum.splits)
  have "t0data arrs' = take (i * 2) (t0data arrs) @
          (flipped_pair (uvs vtx ! 0) @ concat (map (\<lambda>v. flipped_pair (uvs v ! 0)) vl)) @
          drop (i * 2 + 2 * Suc (length vl)) (t0data arrs)"
    using fill_vertex_t0(1) [OF s] _ fill_vertex_t0(2) [OF s] Cons.IH [OF r]
    by (rule splice_step) (simp add: flipped_pair_def)
  then show ?case by simp
qed

lemma fill_arrays_t1:
  "fill_arrays True True has_col i vl arrs = Inr arrs' \<Longrightarrow>
     t1data arrs' = take (i * 2) (t1data arrs) @ concat (map (\<lambda>v. flipped_pair (uvs v ! 1)) vl) @
                    drop (i * 2 + 2 * length vl) (t1data arrs)"
proof (induction vl arbitrary: i arrs)
  case Nil
  then show ?case by simp
next
  case (Cons vtx vl)
  from Cons.prems obtain arrs1 where
    s: "fill_vertex True True has_col i vtx arrs = Inr arrs1"
    and r: "fill_arrays True True has_col (i + 1) vl arrs1 = Inr arrs'"
    by (auto split: sum.splits)
  have "t1data arrs' = take (i * 2) (t1data arrs) @
          (flipped_pair (uvs vtx ! 1) @ concat (map (\<lambda>v. flipped_pair (uvs v ! 1)) vl)) @
          drop (i * 2 + 2 * Suc (length vl)) (t1data arrs)"
    using fill_vertex_t1(1) [OF s] _ fill_vertex_t1(2) [OF s] Cons.IH [OF r]
    by (rule splice_step) (simp add: flipped_pair_def)
  then show ?case by simp
qed

lemma export_mesh_fast_texcoords:
  assumes "export_mesh_fast export_uvs export_vcols num_uv_layers num_colors vert_list = Inr arrs"
  shows "export_uvs \<and> 0 < num_uv_layers \<Longrightarrow>
           t0data arrs = concat (map (\<lambda>v. flipped_pair (uvs v ! 0)) vert_list)"
    and "export_uvs \<and> 1 < num_uv_layers \<Longrightarrow>
           t1data arrs = concat (map (\<lambda>v. flipped_pair (uvs v ! 1)) vert_list)"
proof -
  {
    assume h: "export_uvs \<and> 0 < num_uv_layers"
    with assms obtain a0 where
      "fill_arrays True (num_uv_layers > 1) (export_vcols \<and> num_colors > 0) 0 vert_list a0 = Inr arrs"
      "t0data a0 = replicate (length vert_list * 2) 0"
      by (simp add: export_mesh_fast_def Let_def)
    from fill_arrays_t0 [OF this(1)] this(2)
    show "t0data arrs = concat (map (\<lambda>v. flipped_pair (uvs v ! 0)) vert_list)"
      by (simp add: mult.commute)
  }
  {
    assume h: "export_uvs \<and> 1 < num_uv_layers"
    with assms obtain a0 where
      "fill_arrays True True (export_vcols \<and> num_colors > 0) 0 vert_list a0 = Inr arrs"
      "t1data a0 = replicate (length vert_list * 2) 0"
      by (simp add: export_mesh_fast_def Let_def)
    from fill_arrays_t1 [OF this(1)] this(2)
    show "t1data arrs = concat (map (\<lambda>v. flipped_pair (uvs v ! 1)) vert_list)"
      by (simp add: mult.commute)
  }
qed

subsection \<open>The welded mesh\<close>

lemma bucket_count_pos: "0 < bucket_count n"
proof (cases "n div 8 \<le> 1")
  case True
  with bucket_count_spec [of n] show ?thesis by simp
next
  case False
  with bucket_count_spec [of n] obtain k where "bucket_count n = 2 ^ k" by auto
  then show ?thesis by simp
qed

lemma unify_inv_initial:
  "unify_inv eva bc 0 \<lparr>hashTable = replicate bc [], unifiedVA = [], indexTable = []\<rparr>"
  by (simp add: unify_inv_def)

lemma unify_run_inv:
  "\<exists>st. unify_run eva [] = Inr st \<and> unify_inv eva (bucket_count (length eva)) (length eva) st"
proof -
  have "\<exists>st'. unify_loop eva (bucket_count (length eva)) [0..<length eva]
               \<lparr>hashTable = replicate (bucket_count (length eva)) [], unifiedVA = [],
                indexTable = []\<rparr> = Inr st' \<and>
             unify_inv eva (bucket_count (length eva)) (length eva) st'"
    by (rule unify_loop_inv) (simp_all add: bucket_count_pos unify_inv_initial)
  then show ?thesis by (simp add: unify_run_def Let_def)
qed

lemma first_occ_filter_distinct:
  assumes "a < length (filter (first_occ eva) [0..<n])" "b < length (filter (first_occ eva) [0..<n])"
    and "a \<noteq> b"
  shows "\<not> ev_eq (eva ! (filter (first_occ eva) [0..<n] ! a))
              (eva ! (filter (first_occ eva) [0..<n] ! b))"
proof -
  let ?fs = "filter (first_occ eva) [0..<n]"
  have sorted: "sorted_wrt (<) ?fs" by (simp add: sorted_wrt_filter)
  have fo: "\<And>c. c < length ?fs \<Longrightarrow> first_occ eva (?fs ! c)"
    using nth_mem [of _ ?fs] by fastforce
  have less: "\<And>c d. c < d \<Longrightarrow> d < length ?fs \<Longrightarrow> \<not> ev_eq (eva ! (?fs ! c)) (eva ! (?fs ! d))"
  proof -
    fix c d assume cd: "c < d" "d < length ?fs"
    then have "?fs ! c < ?fs ! d" using sorted by (simp add: sorted_wrt_nth_less)
    with fo [OF cd(2)] show "\<not> ev_eq (eva ! (?fs ! c)) (eva ! (?fs ! d))"
      by (simp add: first_occ_def)
  qed
  show ?thesis
  proof (cases "a < b")
    case True
    with less assms(2) show ?thesis by blast
  next
    case False
    with assms(3) have "b < a" by simp
    with less assms(1) have "\<not> ev_eq (eva ! (?fs ! b)) (eva ! (?fs ! a))" by blast
    then show ?thesis using ev_eq_sym by blast
  qed
qed

lemma deindex_mesh_length:
  "deindex_mesh py_hash m mt0 = Inr (eva, mt) \<Longrightarrow>
     length eva = sum_list (map corner_count (tessfaces m))"
proof -
  assume d: "deindex_mesh py_hash m mt0 = Inr (eva, mt)"
  then obtain eva0 mt' where f: "deindex_faces (vertices m) (tessfaces m) 0 [] mt0 = Inr (eva0, mt')"
    by (auto simp: deindex_mesh_def split: sum.splits)
  from d f obtain eva1 where
    c: "(if length (tessface_vertex_colors m) > 0 then
           assign_pass (\<lambda>ev c. ev\<lparr>color := c\<rparr>) face_colors (tessfaces m)
             (tessface_vertex_colors m ! 0) 0 0 eva0
         else Inr eva0) = Inr eva1"
    by (auto simp: deindex_mesh_def split: sum.splits)
  have l1: "length eva1 = length eva0"
    using c by (auto split: if_splits dest!: assign_pass_length)
  from d f c obtain eva3 where
    t: "(if length (tessface_uv_textures m) > 0 then
           (case assign_pass (\<lambda>ev t. ev\<lparr>texcoord0 := t\<rparr>) face_texcoords
                   (tessfaces m) (tessface_uv_textures m ! 0) 0 0 eva1 of
              Inl e \<Rightarrow> Inl e
            | Inr eva2 \<Rightarrow>
                if length (tessface_uv_textures m) > 1 then
                  assign_pass (\<lambda>ev t. ev\<lparr>texcoord1 := t\<rparr>) face_texcoords
                    (tessfaces m) (tessface_uv_textures m ! 1) 0 0 eva2
                else Inr eva2)
         else Inr eva1) = Inr eva3"
    and e: "eva = map (Hash py_hash) eva3"
    by (auto simp: deindex_mesh_def split: sum.splits)
  have l3: "length eva3 = length eva1"
    using t by (auto split: if_splits sum.splits dest!: assign_pass_length)
  from deindex_faces_length [OF f] l1 l3 e show ?thesis by simp
qed

lemma corner_count_mod3: "sum_list (map corner_count faces) mod 3 = 0"
  by (induction faces) (auto simp: corner_count_def)

text \<open>
  C7. The hash table built by \<open>unify_vertices\<close> for \<open>n\<close> input vertices has
  \<open>bucket_count n\<close> buckets: 1 when \<open>n div 8\<close> is 0 or 1, and otherwise the power of
  two \<open>2^k\<close> with \<open>2^k \<le> n div 8 < 2^(k+1)\<close>, the largest power of two that does not
  exceed \<open>n div 8\<close>. The loop never changes the number of buckets.
\<close>

theorem bucket_count_largest_power_of_two:
  "(length eva div 8 \<le> 1 \<longrightarrow> bucket_count (length eva) = 1) \<and>
   (1 \<le> length eva div 8 \<longrightarrow>
      (\<exists>k. bucket_count (length eva) = 2 ^ k \<and> 2 ^ k \<le> length eva div 8 \<and>
           length eva div 8 < 2 * 2 ^ k)) \<and>
   (\<exists>st. unify_run eva [] = Inr st \<and> length (hashTable st) = bucket_count (length eva))"
proof -
  from unify_run_inv [of eva] obtain st where
    "unify_run eva [] = Inr st" "unify_inv eva (bucket_count (length eva)) (length eva) st"
    by blast
  then have "\<exists>st. unify_run eva [] = Inr st \<and> length (hashTable st) = bucket_count (length eva)"
    unfolding unify_inv_def by blast
  with bucket_count_spec [of "length eva"] show ?thesis by blast
qed

text \<open>
  C2. Called with an empty index table, as \<open>export_mesh_quality\<close> does,
  \<open>unify_vertices\<close> returns; the unified vertices are the input vertices at the first
  occurrences, in input order, and no two of them compare equal; the index table has one
  entry for each input vertex, and each entry is a position in the unified array that
  holds a vertex equal to the input vertex. When the input is a result of
  \<open>deindex_mesh\<close>, the length of the index table is a multiple of 3.
\<close>

theorem unify_vertices_first_occurrence:
  "\<exists>uva it. unify_vertices eva [] = Inr (uva, it) \<and>
     uva = map (\<lambda>i. eva ! i) (filter (first_occ eva) [0..<length eva]) \<and>
     (\<forall>a<length uva. \<forall>b<length uva. a \<noteq> b \<longrightarrow> \<not> ev_eq (uva ! a) (uva ! b)) \<and>
     length it = length eva \<and>
     (\<forall>i<length eva. it ! i < length uva \<and> ev_eq (uva ! (it ! i)) (eva ! i)) \<and>
     (\<forall>py_hash m mt0 mt. deindex_mesh py_hash m mt0 = Inr (eva, mt) \<longrightarrow> length it mod 3 = 0)"
proof -
  from unify_run_inv [of eva] obtain st where
    run: "unify_run eva [] = Inr st"
    and inv: "unify_inv eva (bucket_count (length eva)) (length eva) st"
    by blast
  let ?uva = "unifiedVA st" and ?it = "indexTable st"
  have uv: "unify_vertices eva [] = Inr (?uva, ?it)"
    using run by (simp add: unify_vertices_def)
  have u: "?uva = map (\<lambda>i. eva ! i) (filter (first_occ eva) [0..<length eva])"
    and l: "length ?it = length eva"
    and v: "\<forall>i<length eva. ?it ! i < length ?uva \<and> ev_eq (?uva ! (?it ! i)) (eva ! i)"
    using inv unfolding unify_inv_def by blast+
  have d: "\<forall>a<length ?uva. \<forall>b<length ?uva. a \<noteq> b \<longrightarrow> \<not> ev_eq (?uva ! a) (?uva ! b)"
  proof (intro allI impI)
    fix a b assume ab: "a < length ?uva" "b < length ?uva" "a \<noteq> b"
    then have "a < length (filter (first_occ eva) [0..<length eva])"
      "b < length (filter (first_occ eva) [0..<length eva])"
      by (simp_all add: u)
    from first_occ_filter_distinct [OF this ab(3)] ab(1,2)
    show "\<not> ev_eq (?uva ! a) (?uva ! b)" by (simp add: u)
  qed
  have m: "\<forall>py_hash m mt0 mt. deindex_mesh py_hash m mt0 = Inr (eva, mt) \<longrightarrow> length ?it mod 3 = 0"
    using deindex_mesh_length corner_count_mod3 l by metis
  from uv u d l v m show ?thesis by blast
qed

section \<open>The sample inputs, evaluated\<close>

lemma upt_0_6: "[0..<6] = [0, 1, 2, 3, 4, 5::nat]"
  by code_simp

lemma deindex_quad_mesh: "deindex_mesh floor_hash quad_mesh [] = Inr (quad_eva, [0, 0])"
  by (simp add: deindex_mesh_def quad_mesh_def square_vertex_def triangle_def make_vertex_def
      face_texcoords_def Hash_def floor_hash_def quad_eva_def quad_corner0_def quad_corner1_def
      quad_corner2_def quad_corner3_def corner_vertex_def Let_def)

lemma bucket_count_6: "bucket_count 6 = 1"
  by code_simp

lemma length_quad_eva: "length quad_eva = 6"
  by (simp add: quad_eva_def)

lemma unify_quad_eva:
  "unify_vertices quad_eva [] =
     Inr ([quad_corner0, quad_corner1, quad_corner2, quad_corner3], [0, 1, 2, 0, 2, 3])"
proof -
  have "unify_run quad_eva [] =
          unify_loop quad_eva 1 [0, 1, 2, 3, 4, 5]
            \<lparr>hashTable = [[]], unifiedVA = [], indexTable = []\<rparr>"
    by (simp add: unify_run_def length_quad_eva bucket_count_6 upt_0_6)
  also have "\<dots> = Inr \<lparr>hashTable = [[0, 1, 2, 5]],
                          unifiedVA = [quad_corner0, quad_corner1, quad_corner2, quad_corner3],
                          indexTable = [0, 1, 2, 0, 2, 3]\<rparr>"
    by (simp add: unify_step_def bucket_of_def
        ev_eq_def quad_eva_def quad_corner0_def quad_corner1_def
        quad_corner2_def quad_corner3_def corner_vertex_def Let_def)
  finally show ?thesis by (simp add: unify_vertices_def)
qed

lemma bucket_count_40: "bucket_count 40 = 4"
  by code_simp

lemma fast_sample:
  "export_mesh_fast True False 2 0 [fast_vertex 0 0, fast_vertex 1 (1 / 4)] =
     Inr \<lparr>vdata = [0, 0, 0, 1, 1 / 4, 0], ndata = [0, 0, 1, 0, 0, 1],
          t0data = [0, 1, 1, 3 / 4], t1data = [0, 1, 2, 3 / 4], cdata = []\<rparr>"
  by (simp add: export_mesh_fast_def fill_vertex_def fast_vertex_def Let_def eval_nat_numeral)


theorem bucket_count_largest_power_of_two_witness:
  "length quad_eva div 8 \<le> 1 \<and> bucket_count (length quad_eva) = 1 \<and>
   1 \<le> length (replicate 40 quad_corner0) div 8 \<and>
   bucket_count (length (replicate 40 quad_corner0)) = 2 ^ 2 \<and>
   (\<exists>st. unify_run (replicate 40 quad_corner0) [] = Inr st \<and> length (hashTable st) = 4)"
proof -
  have small: "length quad_eva div 8 \<le> 1" by (simp add: length_quad_eva)
  with bucket_count_largest_power_of_two [of quad_eva]
  have one: "bucket_count (length quad_eva) = 1" by blast
  have big: "1 \<le> length (replicate 40 quad_corner0) div 8" by simp
  with bucket_count_largest_power_of_two [of "replicate 40 quad_corner0"]
  obtain k st where k: "bucket_count (length (replicate 40 quad_corner0)) = 2 ^ k"
      "2 ^ k \<le> length (replicate 40 quad_corner0) div 8"
      "length (replicate 40 quad_corner0) div 8 < 2 * 2 ^ k"
    and st: "unify_run (replicate 40 quad_corner0) [] = Inr st"
      "length (hashTable st) = bucket_count (length (replicate 40 quad_corner0))"
    by blast
  have le: "(2::nat) ^ k \<le> 5" and gt: "(5::nat) < 2 * 2 ^ k" using k(2,3) by simp_all
  have "\<not> k < 2"
  proof
    assume "k < 2"
    then have "k = 0 \<or> k = 1" by auto
    with gt show False by auto
  qed
  moreover have "\<not> 2 < k"
  proof
    assume "2 < k"
    then have "(2::nat) ^ 3 \<le> 2 ^ k" by (intro power_increasing) simp_all
    with le show False by simp
  qed
  ultimately have "k = 2" by simp
  with k(1) st small one big show ?thesis by auto
qed

theorem unify_vertices_first_occurrence_witness:
  "deindex_mesh floor_hash quad_mesh [] = Inr (quad_eva, [0, 0]) \<and>
   unify_vertices quad_eva [] =
     Inr ([quad_corner0, quad_corner1, quad_corner2, quad_corner3], [0, 1, 2, 0, 2, 3]) \<and>
   [quad_corner0, quad_corner1, quad_corner2, quad_corner3] =
     map (\<lambda>i. quad_eva ! i) (filter (first_occ quad_eva) [0..<length quad_eva]) \<and>
   length [0, 1, 2, 0, 2, 3::nat] = length quad_eva \<and>
   length [0, 1, 2, 0, 2, 3::nat] mod 3 = 0"
proof -
  from unify_vertices_first_occurrence [of quad_eva] obtain uva it where
    r: "unify_vertices quad_eva [] = Inr (uva, it)"
    and u: "uva = map (\<lambda>i. quad_eva ! i) (filter (first_occ quad_eva) [0..<length quad_eva])"
    and l: "length it = length quad_eva"
    and m: "\<forall>py_hash m mt0 mt. deindex_mesh py_hash m mt0 = Inr (quad_eva, mt) \<longrightarrow>
              length it mod 3 = 0"
    by blast
  from r unify_quad_eva have
    e: "uva = [quad_corner0, quad_corner1, quad_corner2, quad_corner3]" "it = [0, 1, 2, 0, 2, 3]"
    by simp_all
  from m deindex_quad_mesh have "length it mod 3 = 0" by blast
  with e u l deindex_quad_mesh unify_quad_eva show ?thesis by simp
qed

text \<open>
  C10. Both mesh export paths flip the second component of every UV pair. After
  \<open>deindex_mesh\<close>, the \<open>texcoord0\<close> of the export vertices are the UV pairs \<open>(u, v)\<close> of
  the face corners of UV layer 0, in emission order, each as \<open>(u, 1 - v)\<close>, and likewise
  \<open>texcoord1\<close> for UV layer 1. After the array loop of \<open>export_mesh_fast\<close>, the array
  \<open>t0data\<close> holds \<open>u, 1 - v\<close> of UV layer 0 for each vertex of the list, and \<open>t1data\<close>
  the same of UV layer 1, whenever the respective array is exported.
\<close>

theorem uv_second_component_flipped:
  "(deindex_mesh py_hash m mt0 = Inr (eva, mt) \<longrightarrow>
      (0 < length (tessface_uv_textures m) \<longrightarrow>
         map texcoord0 eva =
           map flip_v (concat (map2 corner_uvs (tessfaces m) (tessface_uv_textures m ! 0)))) \<and>
      (1 < length (tessface_uv_textures m) \<longrightarrow>
         map texcoord1 eva =
           map flip_v (concat (map2 corner_uvs (tessfaces m) (tessface_uv_textures m ! 1))))) \<and>
   (export_mesh_fast export_uvs export_vcols num_uv_layers num_colors vert_list = Inr arrs \<longrightarrow>
      (export_uvs \<and> 0 < num_uv_layers \<longrightarrow>
         t0data arrs = concat (map (\<lambda>v. flipped_pair (uvs v ! 0)) vert_list)) \<and>
      (export_uvs \<and> 1 < num_uv_layers \<longrightarrow>
         t1data arrs = concat (map (\<lambda>v. flipped_pair (uvs v ! 1)) vert_list)))"
proof -
  have a: "map texcoord0 eva =
             map flip_v (concat (map2 corner_uvs (tessfaces m) (tessface_uv_textures m ! 0)))"
    if "deindex_mesh py_hash m mt0 = Inr (eva, mt)" "0 < length (tessface_uv_textures m)"
    using deindex_mesh_texcoords(1) [OF that] by (simp only: concat_face_texcoords_flip)
  have b: "map texcoord1 eva =
             map flip_v (concat (map2 corner_uvs (tessfaces m) (tessface_uv_textures m ! 1)))"
    if "deindex_mesh py_hash m mt0 = Inr (eva, mt)" "1 < length (tessface_uv_textures m)"
    using deindex_mesh_texcoords(2) [OF that] by (simp only: concat_face_texcoords_flip)
  have c: "t0data arrs = concat (map (\<lambda>v. flipped_pair (uvs v ! 0)) vert_list)"
    if "export_mesh_fast export_uvs export_vcols num_uv_layers num_colors vert_list = Inr arrs"
      "export_uvs \<and> 0 < num_uv_layers"
    using export_mesh_fast_texcoords(1) [OF that] .
  have d: "t1data arrs = concat (map (\<lambda>v. flipped_pair (uvs v ! 1)) vert_list)"
    if "export_mesh_fast export_uvs export_vcols num_uv_layers num_colors vert_list = Inr arrs"
      "export_uvs \<and> 1 < num_uv_layers"
    using export_mesh_fast_texcoords(2) [OF that] .
  from a b c d show ?thesis by blast
qed

theorem uv_second_component_flipped_witness:
  "deindex_mesh floor_hash quad_mesh [] = Inr (quad_eva, [0, 0]) \<and>
   map texcoord0 quad_eva = [(0, 1), (1, 1), (1, 0), (0, 1), (1, 0), (0, 0)] \<and>
   map texcoord1 quad_eva = [(0, 1), (2, 1), (2, 0), (0, 1), (2, 0), (0, 0)] \<and>
   export_mesh_fast True False 2 0 [fast_vertex 0 0, fast_vertex 1 (1 / 4)] =
     Inr \<lparr>vdata = [0, 0, 0, 1, 1 / 4, 0], ndata = [0, 0, 1, 0, 0, 1],
          t0data = [0, 1, 1, 3 / 4], t1data = [0, 1, 2, 3 / 4], cdata = []\<rparr> \<and>
   [0, 1, 1, 3 / 4] = concat (map (\<lambda>v. flipped_pair (uvs v ! 0))
                        [fast_vertex 0 0, fast_vertex 1 (1 / 4)]) \<and>
   [0, 1, 2, 3 / 4] = concat (map (\<lambda>v. flipped_pair (uvs v ! 1))
                        [fast_vertex 0 0, fast_vertex 1 (1 / 4)])"
proof -
  note t = uv_second_component_flipped
    [of floor_hash quad_mesh "[]" quad_eva "[0, 0]" True False 2 0
        "[fast_vertex 0 0, fast_vertex 1 (1 / 4)]"
        "\<lparr>vdata = [0, 0, 0, 1, 1 / 4, 0], ndata = [0, 0, 1, 0, 0, 1],
          t0data = [0, 1, 1, 3 / 4], t1data = [0, 1, 2, 3 / 4], cdata = []\<rparr>"]
  have layers: "length (tessface_uv_textures quad_mesh) = 2" by (simp add: quad_mesh_def)
  from t deindex_quad_mesh layers have
    "map texcoord0 quad_eva =
       map flip_v (concat (map2 corner_uvs (tessfaces quad_mesh) (tessface_uv_textures quad_mesh ! 0)))"
    "map texcoord1 quad_eva =
       map flip_v (concat (map2 corner_uvs (tessfaces quad_mesh) (tessface_uv_textures quad_mesh ! 1)))"
    by simp_all
  then have q: "map texcoord0 quad_eva = [(0, 1), (1, 1), (1, 0), (0, 1), (1, 0), (0, 0)]"
    "map texcoord1 quad_eva = [(0, 1), (2, 1), (2, 0), (0, 1), (2, 0), (0, 0)]"
    by (simp_all add: quad_mesh_def corner_uvs_def flip_v_def)
  from t fast_sample have
    "[0, 1, 1, 3 / 4] = concat (map (\<lambda>v. flipped_pair (uvs v ! 0))
                        [fast_vertex 0 0, fast_vertex 1 (1 / 4)])"
    "[0, 1, 2, 3 / 4] = concat (map (\<lambda>v. flipped_pair (uvs v ! 1))
                        [fast_vertex 0 0, fast_vertex 1 (1 / 4)])"
    by simp_all
  with q deindex_quad_mesh fast_sample show ?thesis by simp
qed

end
